theory Spec2Isabelle
  imports Main
begin

section \<open>Tone styling of the note editor (chinese/edit.py)\<close>

text \<open>
  The development embeds the tone-rule pipeline of \<^verbatim>\<open>chinese/edit.py\<close>: the regular
  expression \<^verbatim>\<open>TONE_CSS_RULE\<close>, the two functions \<^verbatim>\<open>append_tone_styling_anki2_1_54\<close> and
  \<^verbatim>\<open>append_tone_styling_anki2_1_49\<close>, and the module-level choice between them.

  A Python \<^verbatim>\<open>str\<close> is a sequence of code points. Here a text is a \<^typ>\<open>string\<close> whose
  characters stand for the code points 0 to 255, one \<^typ>\<open>char\<close> per code point. On
  this range the decimal digits of \<^verbatim>\<open>\d\<close> and of \<^verbatim>\<open>int\<close> are \<^verbatim>\<open>0\<close> to \<^verbatim>\<open>9\<close>, and the white
  space of \<^verbatim>\<open>str.strip\<close> is the twelve characters of \<open>is_space\<close> below. Texts with code
  points above 255 are outside the model.

  The effects of the code are two calls into the host: \<^verbatim>\<open>showWarning\<close>, which shows a
  message, and \<^verbatim>\<open>editor.web.eval\<close>, which sends a script to the web view. Both are
  recorded in a \<open>world\<close>, in the order of the calls. A Python exception is the left
  summand of a result.
\<close>

subsection \<open>Exceptions and the host\<close>

datatype py_error = ValueError | IndexError

type_synonym 'a result = "py_error + 'a"

record world =
  warnings :: "string list"
  scripts :: "string list"

definition showWarning :: "string \<Rightarrow> world \<Rightarrow> world" where
  "showWarning msg w = w\<lparr>warnings := warnings w @ [msg]\<rparr>"

definition web_eval :: "string \<Rightarrow> world \<Rightarrow> world" where
  "web_eval js w = w\<lparr>scripts := scripts w @ [js]\<rparr>"

text \<open>A \<^verbatim>\<open>for\<close> loop over a list whose body updates the loop's variables and may raise.\<close>

fun for_each :: "('a \<Rightarrow> 's \<Rightarrow> 's result) \<Rightarrow> 'a list \<Rightarrow> 's \<Rightarrow> 's result" where
  "for_each body [] s = Inr s"
| "for_each body (x # xs) s =
     (case body x s of Inl e \<Rightarrow> Inl e | Inr s' \<Rightarrow> for_each body xs s')"

subsection \<open>String operations of Python\<close>

definition is_space :: "char \<Rightarrow> bool" where
  "is_space c = (c \<in> set [CHR 0x09, CHR 0x0A, CHR 0x0B, CHR 0x0C, CHR 0x0D,
     CHR 0x1C, CHR 0x1D, CHR 0x1E, CHR 0x1F, CHR 0x20, CHR 0x85, CHR 0xA0])"

definition is_digit :: "char \<Rightarrow> bool" where
  "is_digit c = (c \<in> set ''0123456789'')"

text \<open>\<^verbatim>\<open>s.strip()\<close>\<close>

definition strip :: "string \<Rightarrow> string" where
  "strip s = rev (dropWhile is_space (rev (dropWhile is_space s)))"

text \<open>\<^verbatim>\<open>s.startswith(p)\<close>\<close>

definition startswith :: "string \<Rightarrow> string \<Rightarrow> bool" where
  "startswith s p = (take (length p) s = p)"

text \<open>\<^verbatim>\<open>sub in s\<close>\<close>

fun contains :: "string \<Rightarrow> string \<Rightarrow> bool" where
  "contains sub [] = (sub = [])"
| "contains sub (c # cs) = (startswith (c # cs) sub \<or> contains sub cs)"

text \<open>\<^verbatim>\<open>s.split(sep)\<close> for a separator of one character: the result is never empty.\<close>

fun split_on :: "char \<Rightarrow> string \<Rightarrow> string list" where
  "split_on sep [] = [[]]"
| "split_on sep (c # cs) =
     (let r = split_on sep cs in if c = sep then [] # r else (c # hd r) # tl r)"

text \<open>\<^verbatim>\<open>s.split(sep, 1)\<close>: at most one split, at the first separator.\<close>

definition split_once :: "char \<Rightarrow> string \<Rightarrow> string list" where
  "split_once sep s =
     (if sep \<in> set s then [takeWhile (\<lambda>c. c \<noteq> sep) s, tl (dropWhile (\<lambda>c. c \<noteq> sep) s)]
      else [s])"

text \<open>\<^verbatim>\<open>sep.join(xs)\<close>\<close>

fun join :: "string \<Rightarrow> string list \<Rightarrow> string" where
  "join sep [] = []"
| "join sep [x] = x"
| "join sep (x # y # ys) = x @ sep @ join sep (y # ys)"

text \<open>\<^verbatim>\<open>s[b:e]\<close> for \<open>b \<le> e \<le> len(s)\<close>\<close>

definition slice :: "string \<Rightarrow> nat \<Rightarrow> nat \<Rightarrow> string" where
  "slice s b e = take (e - b) (drop b s)"

subsection \<open>Regular expressions\<close>

text \<open>
  The pattern language that \<^verbatim>\<open>TONE_CSS_RULE\<close> needs: a pattern is a sequence of items, an
  item being one character of a class, a greedy star of a class, or the opening or
  closing parenthesis of a numbered group. The classes are a literal character, \<^verbatim>\<open>\d\<close>,
  and the negated class \<^verbatim>\<open>[^c]\<close>.
\<close>

datatype cls = Lit char | Digit | Except char

fun accepts :: "cls \<Rightarrow> char \<Rightarrow> bool" where
  "accepts (Lit a) c = (c = a)"
| "accepts Digit c = is_digit c"
| "accepts (Except a) c = (c \<noteq> a)"

datatype item = One cls | Star cls | Open nat | Close nat

text \<open>
  The backtracking matcher at a fixed start. \<open>run p s pos ops caps\<close> matches the items
  \<open>p\<close> against the rest \<open>s\<close> of the text, which begins at index \<open>pos\<close>; \<open>ops\<close> holds the
  start of each group opened so far and \<open>caps\<close> the span of each group closed so far.
  A star first tries one more character and falls back to none when the rest of the
  pattern then fails. The result is the end of the match and the spans of the groups.
  A closing parenthesis without its opening one matches nothing (\<^verbatim>\<open>re.compile\<close> refuses
  such a pattern).
\<close>

fun run :: "item list \<Rightarrow> string \<Rightarrow> nat \<Rightarrow> (nat \<times> nat) list \<Rightarrow> (nat \<times> nat \<times> nat) list
    \<Rightarrow> (nat \<times> (nat \<times> nat \<times> nat) list) option" where
  "run [] s pos ops caps = Some (pos, caps)"
| "run (One k # p) [] pos ops caps = None"
| "run (One k # p) (c # cs) pos ops caps =
     (if accepts k c then run p cs (Suc pos) ops caps else None)"
| "run (Star k # p) [] pos ops caps = run p [] pos ops caps"
| "run (Star k # p) (c # cs) pos ops caps =
     (if accepts k c then
        (case run (Star k # p) cs (Suc pos) ops caps of
           Some r \<Rightarrow> Some r
         | None \<Rightarrow> run p (c # cs) pos ops caps)
      else run p (c # cs) pos ops caps)"
| "run (Open g # p) s pos ops caps = run p s pos ((g, pos) # ops) caps"
| "run (Close g # p) s pos ops caps =
     (case map_of ops g of
        None \<Rightarrow> None
      | Some b \<Rightarrow> run p s pos ops ((g, b, pos) # caps))"

text \<open>A match object: the text searched, the span of the match, the spans of the groups.\<close>

record re_match =
  m_string :: string
  m_start :: nat
  m_end :: nat
  m_groups :: "(nat \<times> nat \<times> nat) list"

text \<open>
  \<^verbatim>\<open>pattern.search(line)\<close>: the match at the leftmost start that has one, \<open>None\<close> when no
  start has. \<open>search_from p line s i\<close> tries the starts from \<open>i\<close> on, \<open>s\<close> being the text
  from index \<open>i\<close>.
\<close>

fun search_from :: "item list \<Rightarrow> string \<Rightarrow> string \<Rightarrow> nat \<Rightarrow> re_match option" where
  "search_from p line [] i =
     (case run p [] i [] [] of
        Some (e, caps) \<Rightarrow> Some \<lparr>m_string = line, m_start = i, m_end = e, m_groups = caps\<rparr>
      | None \<Rightarrow> None)"
| "search_from p line (c # cs) i =
     (case run p (c # cs) i [] [] of
        Some (e, caps) \<Rightarrow> Some \<lparr>m_string = line, m_start = i, m_end = e, m_groups = caps\<rparr>
      | None \<Rightarrow> search_from p line cs (Suc i))"

definition re_search :: "item list \<Rightarrow> string \<Rightarrow> re_match option" where
  "re_search p line = search_from p line line 0"

text \<open>\<^verbatim>\<open>m.group(i)\<close>: group 0 is the whole match; a group the pattern has not raises.\<close>

definition group :: "re_match \<Rightarrow> nat \<Rightarrow> string result" where
  "group m i =
     (if i = 0 then Inr (slice (m_string m) (m_start m) (m_end m))
      else (case map_of (m_groups m) i of
              None \<Rightarrow> Inl IndexError
            | Some (b, e) \<Rightarrow> Inr (slice (m_string m) b e)))"

text \<open>\<^verbatim>\<open>TONE_CSS_RULE = re.compile("(\\.tone\\d) *\\{([^}]*)\\}")\<close>\<close>

definition TONE_CSS_RULE :: "item list" where
  "TONE_CSS_RULE =
     [Open 1, One (Lit CHR ''.''), One (Lit CHR ''t''), One (Lit CHR ''o''),
      One (Lit CHR ''n''), One (Lit CHR ''e''), One Digit, Close 1,
      Star (Lit CHR '' ''),
      One (Lit CHR ''{''),
      Open 2, Star (Except CHR ''}''), Close 2,
      One (Lit CHR ''}'')]"

subsection \<open>\<^verbatim>\<open>json.dumps\<close> of a list of strings\<close>

definition hex_digit :: "nat \<Rightarrow> char" where
  "hex_digit n = ''0123456789abcdef'' ! (n mod 16)"

definition json_escape :: "char \<Rightarrow> string" where
  "json_escape c =
     (if c = CHR 0x22 then [CHR 0x5C, CHR 0x22]
      else if c = CHR 0x5C then [CHR 0x5C, CHR 0x5C]
      else if c = CHR 0x0A then [CHR 0x5C, CHR ''n'']
      else if c = CHR 0x0D then [CHR 0x5C, CHR ''r'']
      else if c = CHR 0x09 then [CHR 0x5C, CHR ''t'']
      else if c = CHR 0x08 then [CHR 0x5C, CHR ''b'']
      else if c = CHR 0x0C then [CHR 0x5C, CHR ''f'']
      else if 32 \<le> (of_char c :: nat) \<and> (of_char c :: nat) \<le> 126 then [c]
      else [CHR 0x5C, CHR ''u'', CHR ''0'', CHR ''0'',
            hex_digit ((of_char c :: nat) div 16), hex_digit (of_char c :: nat)])"

definition json_dumps_str :: "string \<Rightarrow> string" where
  "json_dumps_str s = CHR 0x22 # concat (map json_escape s) @ [CHR 0x22]"

definition json_dumps :: "string list \<Rightarrow> string" where
  "json_dumps xs = ''['' @ join '', '' (map json_dumps_str xs) @ '']''"

subsection \<open>The extraction and injection for Anki 2.1.54 and later\<close>

definition WARN_ONE_LINER :: string where
  "WARN_ONE_LINER =
     ''WARN: could not parse CSS tone rule. Currently, tone CSS rules need to be one liners.''"

text \<open>The body of the loop over the lines: the loop's variable is \<^verbatim>\<open>rules\<close>.\<close>

definition line_54 :: "string \<Rightarrow> string list \<times> world \<Rightarrow> (string list \<times> world) result" where
  "line_54 line st =
     (case st of (rules, w) \<Rightarrow>
        if contains ''.tone'' line then
          (case re_search TONE_CSS_RULE line of
             Some m \<Rightarrow> Inr (rules @ [line], w)
           | None \<Rightarrow> Inr (rules, showWarning WARN_ONE_LINER w))
        else Inr (rules, w))"

definition rules_54 :: "string \<Rightarrow> world \<Rightarrow> (string list \<times> world) result" where
  "rules_54 css w = for_each line_54 (split_on CHR 0x0A css) ([], w)"

definition JS_54 :: string where
\<open>JS_54 = ''\<newline>    require("anki/ui").loaded.then(() => \<newline>      require("anki/RichTextInput").instances.forEach(inst =>\<newline>        inst.customStyles.then(styles => {\<newline>          var sheet = styles.styleMap.get("userBase").element.sheet;\<newline>          CSSRULES.forEach(rule =>\<newline>            sheet.insertRule(rule)\<newline>          );\<newline>        })\<newline>      )\<newline>    );\<newline>    ''\<close>

definition append_tone_styling_anki2_1_54 :: "string \<Rightarrow> world \<Rightarrow> world result" where
  "append_tone_styling_anki2_1_54 css w =
     (case rules_54 css w of
        Inl e \<Rightarrow> Inl e
      | Inr (rules, w') \<Rightarrow>
          Inr (web_eval (''var CSSRULES = '' @ json_dumps rules @ '';'' @ JS_54) w'))"

subsection \<open>The extraction and injection for Anki 2.1.49\<close>

definition line_49 :: "string \<Rightarrow> (string \<times> string) list \<times> world
    \<Rightarrow> ((string \<times> string) list \<times> world) result" where
  "line_49 line st =
     (case st of (rules, w) \<Rightarrow>
        if startswith line ''.tone'' then
          (case re_search TONE_CSS_RULE line of
             Some m \<Rightarrow>
               (case group m 1 of
                  Inl e \<Rightarrow> Inl e
                | Inr g1 \<Rightarrow>
                    (case group m 2 of
                       Inl e \<Rightarrow> Inl e
                     | Inr g2 \<Rightarrow> Inr (rules @ [(g1, g2)], w)))
           | None \<Rightarrow> Inr (rules, showWarning WARN_ONE_LINER w))
        else Inr (rules, w))"

definition rules_49 :: "string \<Rightarrow> world \<Rightarrow> ((string \<times> string) list \<times> world) result" where
  "rules_49 css w = for_each line_49 (split_on CHR 0x0A css) ([], w)"

text \<open>
  The statement that one declaration becomes (the f-string of the inner loop);
  \<open>quoted s\<close> is \<open>s\<close> between two single quotes.
\<close>

definition quoted :: "string \<Rightarrow> string" where
  "quoted s = [CHR 0x27] @ s @ [CHR 0x27]"

definition statement :: "string \<Rightarrow> string \<Rightarrow> string \<Rightarrow> string" where
  "statement rulename property value =
     ''jQuery('' @ quoted (strip rulename) @ '', this.shadowRoot).css('' @
     quoted (strip property) @ '', '' @ quoted (strip value) @ '');\<newline>''"

text \<open>
  The body of the loop over the parts of a declaration block. The assignment
  \<^verbatim>\<open>[property, value] = part.split(':', 1)\<close> raises unless the list has two elements.
\<close>

definition part_49 :: "string \<Rightarrow> string \<Rightarrow> string \<Rightarrow> string result" where
  "part_49 rulename part inner_js =
     (if CHR '':'' \<in> set part then
        (case split_once CHR '':'' part of
           [property, value] \<Rightarrow> Inr (inner_js @ statement rulename property value)
         | _ \<Rightarrow> Inl ValueError)
      else Inr inner_js)"

definition rule_49 :: "string \<times> string \<Rightarrow> string \<Rightarrow> string result" where
  "rule_49 rule inner_js =
     (case rule of (rulename, ruledef) \<Rightarrow>
        for_each (part_49 rulename) (split_on CHR '';'' ruledef) inner_js)"

definition inner_js_49 :: "(string \<times> string) list \<Rightarrow> string result" where
  "inner_js_49 rules = for_each rule_49 rules []"

definition append_tone_styling_anki2_1_49 :: "string \<Rightarrow> world \<Rightarrow> world result" where
\<open>append_tone_styling_anki2_1_49 css w =
     (case rules_49 css w of
        Inl e \<Rightarrow> Inl e
      | Inr (rules, w') \<Rightarrow>
          (case inner_js_49 rules of
             Inl e \<Rightarrow> Inl e
           | Inr inner_js \<Rightarrow>
               Inr (web_eval (''jQuery('div.field').each(function () {\<newline>'' @ inner_js @ ''})'') w')))\<close>

subsection \<open>The choice of the function when the module is loaded\<close>

text \<open>
  \<^verbatim>\<open>int(x)\<close> on a text: white space around the number, an optional sign, then decimal
  digits, single underscores allowed between two digits; anything else raises
  \<^verbatim>\<open>ValueError\<close>. The white space of \<^verbatim>\<open>int\<close> is narrower than that of \<^verbatim>\<open>str.strip\<close>: the
  four separators 0x1C to 0x1F are not skipped. The bound that recent interpreters put
  on the number of digits (4300 by default) is not modelled: a version text has a few
  digits.
\<close>

definition int_space :: "char \<Rightarrow> bool" where
  "int_space c = (c \<in> set [CHR 0x09, CHR 0x0A, CHR 0x0B, CHR 0x0C, CHR 0x0D,
     CHR 0x20, CHR 0x85, CHR 0xA0])"

definition digit_value :: "char \<Rightarrow> nat" where
  "digit_value c = of_char c - 48"

fun digits_value :: "string \<Rightarrow> nat \<Rightarrow> bool \<Rightarrow> nat option" where
  "digits_value [] acc prev = (if prev then Some acc else None)"
| "digits_value (c # cs) acc prev =
     (if is_digit c then digits_value cs (10 * acc + digit_value c) True
      else if c = CHR ''_'' \<and> prev then digits_value cs acc False
      else None)"

definition py_int :: "string \<Rightarrow> int result" where
  "py_int s =
     (let t = rev (dropWhile int_space (rev (dropWhile int_space s)));
          signed = (t \<noteq> [] \<and> (hd t = CHR ''+'' \<or> hd t = CHR ''-''));
          negative = (t \<noteq> [] \<and> hd t = CHR ''-'')
      in case digits_value (if signed then tl t else t) 0 False of
           None \<Rightarrow> Inl ValueError
         | Some n \<Rightarrow> Inr (if negative then - int n else int n))"

text \<open>The list comprehension \<^verbatim>\<open>[int(x) for x in xs]\<close>: the first failure raises.\<close>

fun int_each :: "string list \<Rightarrow> int list result" where
  "int_each [] = Inr []"
| "int_each (x # xs) =
     (case py_int x of
        Inl e \<Rightarrow> Inl e
      | Inr n \<Rightarrow> (case int_each xs of Inl e \<Rightarrow> Inl e | Inr ns \<Rightarrow> Inr (n # ns)))"

text \<open>
  The comparisons \<^verbatim>\<open><\<close> and \<^verbatim>\<open>>=\<close> of two lists of integers: the first index where they
  differ decides; when there is none, the lengths decide.
\<close>

fun list_lt :: "int list \<Rightarrow> int list \<Rightarrow> bool" where
  "list_lt [] [] = False"
| "list_lt [] (y # ys) = True"
| "list_lt (x # xs) [] = False"
| "list_lt (x # xs) (y # ys) = (if x = y then list_lt xs ys else x < y)"

fun list_ge :: "int list \<Rightarrow> int list \<Rightarrow> bool" where
  "list_ge [] [] = True"
| "list_ge [] (y # ys) = False"
| "list_ge (x # xs) [] = True"
| "list_ge (x # xs) (y # ys) = (if x = y then list_ge xs ys else x \<ge> y)"

text \<open>What the name \<^verbatim>\<open>append_tone_styling\<close> is bound to.\<close>

datatype binding = Anki2_1_49 | Anki2_1_54 | Pass

definition UNSUPPORTED :: string where
  "UNSUPPORTED =
     ''Chinese tone styling has not been implemented for your current Anki version. Supported versions are Anki 2.1.49 as well as 2.1.54 and later.''"

definition bind_by_version :: "int list \<Rightarrow> world \<Rightarrow> binding \<times> world" where
  "bind_by_version version w =
     (if list_lt version [2, 1, 50] then (Anki2_1_49, w)
      else if list_ge version [2, 1, 54] then (Anki2_1_54, w)
      else (Pass, showWarning UNSUPPORTED w))"

text \<open>The module-level statements, from the text of \<^verbatim>\<open>anki.buildinfo.version\<close>.\<close>

definition load_module :: "string \<Rightarrow> world \<Rightarrow> (binding \<times> world) result" where
  "load_module version w =
     (case int_each (split_on CHR ''.'' version) of
        Inl e \<Rightarrow> Inl e
      | Inr v \<Rightarrow> Inr (bind_by_version v w))"

definition append_tone_styling :: "binding \<Rightarrow> string \<Rightarrow> world \<Rightarrow> world result" where
  "append_tone_styling b css w =
     (case b of
        Anki2_1_49 \<Rightarrow> append_tone_styling_anki2_1_49 css w
      | Anki2_1_54 \<Rightarrow> append_tone_styling_anki2_1_54 css w
      | Pass \<Rightarrow> Inr w)"

subsection \<open>The texts that the pattern matches\<close>

text \<open>
  A tone rule is the selector \<^verbatim>\<open>.tone\<close> with one digit \<open>d\<close>, a run \<open>sp\<close> of spaces, and a
  body between braces that has no closing brace in it.
\<close>

definition rule_parts :: "char \<Rightarrow> string \<Rightarrow> string \<Rightarrow> bool" where
  "rule_parts d sp body = (is_digit d \<and> set sp \<subseteq> {CHR '' ''} \<and> CHR ''}'' \<notin> set body)"

definition rule_text :: "char \<Rightarrow> string \<Rightarrow> string \<Rightarrow> string" where
  "rule_text d sp body = ''.tone'' @ [d] @ sp @ ''{'' @ body @ ''}''"


text \<open>A text begins with a tone rule.\<close>

inductive begins_rule :: "string \<Rightarrow> bool" where
  "rule_parts d sp body \<Longrightarrow> begins_rule (rule_text d sp body @ post)"

text \<open>
  The pair of group 1 and group 2 of the match found in a line, as a list with one
  element, or the empty list when nothing is found.
\<close>

definition match_groups :: "string \<Rightarrow> (string \<times> string) list" where
  "match_groups line =
     (case re_search TONE_CSS_RULE line of
        None \<Rightarrow> []
      | Some m \<Rightarrow> (case (group m 1, group m 2) of (Inr a, Inr b) \<Rightarrow> [(a, b)] | _ \<Rightarrow> []))"

text \<open>
  The match object for a rule with the spaces \<open>sp\<close> and the body \<open>body\<close> that begins after
  the text \<open>pre\<close> of a line.
\<close>

definition tone_match :: "string \<Rightarrow> string \<Rightarrow> string \<Rightarrow> string \<Rightarrow> re_match" where
  "tone_match line pre sp body =
     \<lparr>m_string = line, m_start = length pre, m_end = length pre + (8 + length sp + length body),
      m_groups = [(2, length pre + 7 + length sp, length pre + 7 + length sp + length body),
                  (1, length pre, length pre + 6)]\<rparr>"

text \<open>The world after \<open>n\<close> more warnings about a line that is no one-liner.\<close>

definition warned :: "world \<Rightarrow> nat \<Rightarrow> world" where
  "warned w n = w\<lparr>warnings := warnings w @ replicate n WARN_ONE_LINER\<rparr>"

subsection \<open>The declarations of a rule, as the specification describes them\<close>

text \<open>
  After the specification's wording: the declaration body is split on \<^verbatim>\<open>;\<close>, each segment
  containing \<^verbatim>\<open>:\<close> is split on the first \<^verbatim>\<open>:\<close> into a property and a value, both trimmed of
  surrounding white space; segments without \<^verbatim>\<open>:\<close> are skipped.
\<close>

definition declaration_pairs :: "string \<Rightarrow> (string \<times> string) list" where
  "declaration_pairs body =
     map (\<lambda>seg. (strip (takeWhile (\<lambda>c. c \<noteq> CHR '':'') seg),
                 strip (tl (dropWhile (\<lambda>c. c \<noteq> CHR '':'') seg))))
       (filter (\<lambda>seg. CHR '':'' \<in> set seg) (split_on CHR '';'' body))"

text \<open>The statement that sets a property to a value on the elements matching a selector.\<close>

definition assignment :: "string \<Rightarrow> string \<Rightarrow> string \<Rightarrow> string" where
  "assignment selector property value =
     ''jQuery('' @ quoted selector @ '', this.shadowRoot).css('' @ quoted property @ '', '' @
     quoted value @ '');\<newline>''"

text \<open>The number of places of a text where a given text begins.\<close>

fun occurrences :: "string \<Rightarrow> string \<Rightarrow> nat" where
  "occurrences sub [] = (if sub = [] then 1 else 0)"
| "occurrences sub (c # cs) = (if startswith (c # cs) sub then 1 else 0) + occurrences sub cs"

section \<open>Properties\<close>

subsection \<open>The matcher on the tone pattern\<close>

lemma run_One_Some:
  "run (One k # p) s pos ops caps = Some r \<longleftrightarrow>
     (\<exists>c cs. s = c # cs \<and> accepts k c \<and> run p cs (Suc pos) ops caps = Some r)"
  by (cases s) auto

lemma run_Star_skip:
  assumes "\<And>c cs pos. accepts k c \<Longrightarrow> run p (c # cs) pos ops caps = None"
  shows "run (Star k # p) s pos ops caps =
         run p (dropWhile (accepts k) s) (pos + length (takeWhile (accepts k) s)) ops caps"
proof (induction s arbitrary: pos)
  case Nil
  then show ?case by simp
next
  case (Cons c cs)
  show ?case
  proof (cases "accepts k c")
    case True
    then show ?thesis using Cons [of "Suc pos"] assms [of c cs pos]
      by (simp split: option.splits)
  next
    case False
    then show ?thesis by simp
  qed
qed

text \<open>The tail of the pattern after the selector group.\<close>

lemma run_body:
  assumes ops: "map_of ops g = Some b"
  shows "run [Star (Except CHR ''}''), Close g, One (Lit CHR ''}'')] s pos ops caps = Some r \<longleftrightarrow>
     (\<exists>body post. s = body @ ''}'' @ post \<and> CHR ''}'' \<notin> set body \<and>
        r = (pos + length body + 1, (g, b, pos + length body) # caps))"
  (is "?L = ?R")
proof -
  let ?P = "accepts (Except CHR ''}'')"
  have skip: "run [Star (Except CHR ''}''), Close g, One (Lit CHR ''}'')] s pos ops caps =
      run [Close g, One (Lit CHR ''}'')] (dropWhile ?P s) (pos + length (takeWhile ?P s)) ops caps"
    by (rule run_Star_skip) (simp add: ops)
  show ?thesis
  proof
    assume ?L
    then obtain cs where d: "dropWhile ?P s = CHR ''}'' # cs"
      and r: "r = (Suc (pos + length (takeWhile ?P s)), (g, b, pos + length (takeWhile ?P s)) # caps)"
      unfolding skip by (auto simp: run_One_Some ops)
    have "s = takeWhile ?P s @ ''}'' @ cs" using d by (metis append_Cons append_Nil takeWhile_dropWhile_id)
    moreover have "CHR ''}'' \<notin> set (takeWhile ?P s)" by (auto dest: set_takeWhileD)
    ultimately show ?R using r by auto
  next
    assume ?R
    then obtain body post where s: "s = body @ ''}'' @ post" and nb: "CHR ''}'' \<notin> set body"
      and r: "r = (pos + length body + 1, (g, b, pos + length body) # caps)" by blast
    have t: "takeWhile ?P s = body" unfolding s using nb
      by (subst takeWhile_append2) auto
    have d: "dropWhile ?P s = ''}'' @ post" unfolding s using nb
      by (subst dropWhile_append2) auto
    show ?L unfolding skip t d using r by (simp add: ops)
  qed
qed

lemma run_spaces:
  "run (Star (Lit CHR '' '') # One (Lit CHR ''{'') # p) s pos ops caps = Some r \<longleftrightarrow>
     (\<exists>sp rest. s = sp @ ''{'' @ rest \<and> set sp \<subseteq> {CHR '' ''} \<and>
        run p rest (pos + length sp + 1) ops caps = Some r)"
  (is "?L = ?R")
proof -
  let ?P = "accepts (Lit CHR '' '')"
  have skip: "run (Star (Lit CHR '' '') # One (Lit CHR ''{'') # p) s pos ops caps =
      run (One (Lit CHR ''{'') # p) (dropWhile ?P s) (pos + length (takeWhile ?P s)) ops caps"
    by (rule run_Star_skip) simp
  show ?thesis
  proof
    assume ?L
    then obtain cs where d: "dropWhile ?P s = CHR ''{'' # cs"
      and r: "run p cs (Suc (pos + length (takeWhile ?P s))) ops caps = Some r"
      unfolding skip by (auto simp: run_One_Some)
    have "s = takeWhile ?P s @ ''{'' @ cs" using d by (metis append_Cons append_Nil takeWhile_dropWhile_id)
    moreover have "set (takeWhile ?P s) \<subseteq> {CHR '' ''}" by (auto dest: set_takeWhileD)
    ultimately show ?R using r by (metis Suc_eq_plus1)
  next
    assume ?R
    then obtain sp rest where s: "s = sp @ ''{'' @ rest" and sp: "set sp \<subseteq> {CHR '' ''}"
      and r: "run p rest (pos + length sp + 1) ops caps = Some r" by blast
    have t: "takeWhile ?P s = sp" unfolding s using sp
      by (subst takeWhile_append2) auto
    have d: "dropWhile ?P s = ''{'' @ rest" unfolding s using sp
      by (subst dropWhile_append2) auto
    show ?L unfolding skip t d using r by simp
  qed
qed

lemma run_selector:
  "run (Open 1 # One (Lit CHR ''.'') # One (Lit CHR ''t'') # One (Lit CHR ''o'') #
        One (Lit CHR ''n'') # One (Lit CHR ''e'') # One Digit # Close 1 # p) s i [] [] = Some r \<longleftrightarrow>
     (\<exists>d rest. s = ''.tone'' @ [d] @ rest \<and> is_digit d \<and>
        run p rest (i + 6) [(1, i)] [(1, i, i + 6)] = Some r)"
  by (auto simp: run_One_Some numeral_eq_Suc)

lemma run_tone:
  "run TONE_CSS_RULE s i [] [] = Some r \<longleftrightarrow>
     (\<exists>d sp body post. s = rule_text d sp body @ post \<and> rule_parts d sp body \<and>
        r = (i + length (rule_text d sp body),
             [(2, i + 7 + length sp, i + 7 + length sp + length body), (1, i, i + 6)]))"
  (is "?L = ?R")
proof -
  let ?caps = "[(1, i, i + 6)]"
  have sel: "?L \<longleftrightarrow> (\<exists>d rest. s = ''.tone'' @ [d] @ rest \<and> is_digit d \<and>
      run [Star (Lit CHR '' ''), One (Lit CHR ''{''), Open 2, Star (Except CHR ''}''), Close 2,
           One (Lit CHR ''}'')] rest (i + 6) [(1, i)] ?caps = Some r)"
    unfolding TONE_CSS_RULE_def by (rule run_selector)
  have spaces: "run [Star (Lit CHR '' ''), One (Lit CHR ''{''), Open 2, Star (Except CHR ''}''),
        Close 2, One (Lit CHR ''}'')] rest (i + 6) [(1, i)] ?caps = Some r \<longleftrightarrow>
      (\<exists>sp rest'. rest = sp @ ''{'' @ rest' \<and> set sp \<subseteq> {CHR '' ''} \<and>
         run [Star (Except CHR ''}''), Close 2, One (Lit CHR ''}'')] rest' (i + 6 + length sp + 1)
           [(2, i + 6 + length sp + 1), (1, i)] ?caps = Some r)" for rest
    by (simp only: run_spaces run.simps(6))
  have body: "run [Star (Except CHR ''}''), Close 2, One (Lit CHR ''}'')] rest' n [(2, n), (1, i)] ?caps
        = Some r \<longleftrightarrow>
      (\<exists>body post. rest' = body @ ''}'' @ post \<and> CHR ''}'' \<notin> set body \<and>
         r = (n + length body + 1, (2, n, n + length body) # ?caps))" for rest' n
    by (rule run_body) simp
  show ?thesis
  proof
    assume ?L
    then obtain d rest where s: "s = ''.tone'' @ [d] @ rest" and d: "is_digit d"
      and 1: "run [Star (Lit CHR '' ''), One (Lit CHR ''{''), Open 2, Star (Except CHR ''}''), Close 2,
           One (Lit CHR ''}'')] rest (i + 6) [(1, i)] ?caps = Some r"
      unfolding sel by blast
    from 1 obtain sp rest' where rest: "rest = sp @ ''{'' @ rest'" and sp: "set sp \<subseteq> {CHR '' ''}"
      and 2: "run [Star (Except CHR ''}''), Close 2, One (Lit CHR ''}'')] rest' (i + 6 + length sp + 1)
           [(2, i + 6 + length sp + 1), (1, i)] ?caps = Some r"
      unfolding spaces by blast
    from 2 obtain b post where rest': "rest' = b @ ''}'' @ post" and b: "CHR ''}'' \<notin> set b"
      and r: "r = (i + 6 + length sp + 1 + length b + 1,
                   (2, i + 6 + length sp + 1, i + 6 + length sp + 1 + length b) # ?caps)"
      unfolding body by blast
    have "s = rule_text d sp b @ post" by (simp add: s rest rest' rule_text_def)
    moreover have "rule_parts d sp b" by (simp add: d sp b rule_parts_def)
    moreover have "r = (i + length (rule_text d sp b),
        [(2, i + 7 + length sp, i + 7 + length sp + length b), (1, i, i + 6)])"
      by (simp add: r rule_text_def)
    ultimately show ?R by blast
  next
    assume ?R
    then obtain d sp b post where s: "s = rule_text d sp b @ post" and p: "rule_parts d sp b"
      and r: "r = (i + length (rule_text d sp b),
        [(2, i + 7 + length sp, i + 7 + length sp + length b), (1, i, i + 6)])"
      by blast
    have "run [Star (Except CHR ''}''), Close 2, One (Lit CHR ''}'')] (b @ ''}'' @ post)
        (i + 6 + length sp + 1) [(2, i + 6 + length sp + 1), (1, i)] ?caps = Some r"
      unfolding body using p by (auto simp: r rule_text_def rule_parts_def)
    then have "run [Star (Lit CHR '' ''), One (Lit CHR ''{''), Open 2, Star (Except CHR ''}''), Close 2,
           One (Lit CHR ''}'')] (sp @ ''{'' @ b @ ''}'' @ post) (i + 6) [(1, i)] ?caps = Some r"
      unfolding spaces using p by (auto simp: rule_parts_def)
    then show ?L
      unfolding sel using p by (auto simp: s rule_text_def rule_parts_def)
  qed
qed


lemma search_from_None:
  "search_from p line s i = None \<longleftrightarrow>
     (\<forall>pre rest. s = pre @ rest \<longrightarrow> run p rest (i + length pre) [] [] = None)"
proof (induction s arbitrary: i)
  case Nil
  then show ?case by (auto split: option.splits)
next
  case (Cons c cs)
  have "search_from p line (c # cs) i = None \<longleftrightarrow>
      run p (c # cs) i [] [] = None \<and> search_from p line cs (Suc i) = None"
    by (auto split: option.splits)
  also have "\<dots> \<longleftrightarrow> run p (c # cs) i [] [] = None \<and>
      (\<forall>pre rest. cs = pre @ rest \<longrightarrow> run p rest (Suc i + length pre) [] [] = None)"
    unfolding Cons ..
  also have "\<dots> \<longleftrightarrow> (\<forall>pre rest. c # cs = pre @ rest \<longrightarrow> run p rest (i + length pre) [] [] = None)"
    (is "?A \<and> ?B \<longleftrightarrow> ?C")
  proof
    assume "?A \<and> ?B"
    then show ?C by (auto simp: Cons_eq_append_conv)
  next
    assume c: ?C
    have ?A using c [rule_format, of "[]" "c # cs"] by simp
    moreover have ?B
    proof (intro allI impI)
      fix pre rest
      assume "cs = pre @ rest"
      then show "run p rest (Suc i + length pre) [] [] = None"
        using c [rule_format, of "c # pre" rest] by simp
    qed
    ultimately show "?A \<and> ?B" ..
  qed
  finally show ?case .
qed

lemma search_from_Some:
  "search_from p line s i = Some m \<longleftrightarrow>
     (\<exists>pre rest e caps. s = pre @ rest \<and> run p rest (i + length pre) [] [] = Some (e, caps) \<and>
        m = \<lparr>m_string = line, m_start = i + length pre, m_end = e, m_groups = caps\<rparr> \<and>
        (\<forall>pre' rest'. s = pre' @ rest' \<and> length pre' < length pre \<longrightarrow>
           run p rest' (i + length pre') [] [] = None))"
  (is "?L s i = ?R s i")
proof (induction s arbitrary: i)
  case Nil
  then show ?case by (auto split: option.splits)
next
  case (Cons c cs)
  show ?case
  proof (cases "run p (c # cs) i [] []")
    case (Some r)
    obtain e caps where r: "r = (e, caps)" by (cases r)
    have l: "?L (c # cs) i \<longleftrightarrow> m = \<lparr>m_string = line, m_start = i, m_end = e, m_groups = caps\<rparr>"
      using Some r by auto
    have "?R (c # cs) i \<longleftrightarrow> m = \<lparr>m_string = line, m_start = i, m_end = e, m_groups = caps\<rparr>"
    proof
      assume "?R (c # cs) i"
      then obtain pre rest e' caps' where s: "c # cs = pre @ rest"
        and run: "run p rest (i + length pre) [] [] = Some (e', caps')"
        and m: "m = \<lparr>m_string = line, m_start = i + length pre, m_end = e', m_groups = caps'\<rparr>"
        and least: "\<forall>pre' rest'. c # cs = pre' @ rest' \<and> length pre' < length pre \<longrightarrow>
           run p rest' (i + length pre') [] [] = None"
        by blast
      have "pre = []"
      proof (rule ccontr)
        assume "pre \<noteq> []"
        then have "run p (c # cs) (i + length ([]::string)) [] [] = None"
          using least [rule_format, of "[]" "c # cs"] by simp
        then show False using Some by simp
      qed
      then show "m = \<lparr>m_string = line, m_start = i, m_end = e, m_groups = caps\<rparr>"
        using s run m Some r by simp
    next
      assume "m = \<lparr>m_string = line, m_start = i, m_end = e, m_groups = caps\<rparr>"
      then show "?R (c # cs) i"
        using Some r by (intro exI [of _ "[]"] exI [of _ "c # cs"] exI [of _ e] exI [of _ caps]) simp
    qed
    then show ?thesis using l by blast
  next
    case None
    have "?L (c # cs) i \<longleftrightarrow> ?L cs (Suc i)" using None by simp
    also have "\<dots> \<longleftrightarrow> ?R cs (Suc i)" by (rule Cons)
    also have "\<dots> \<longleftrightarrow> ?R (c # cs) i"
    proof
      assume "?R cs (Suc i)"
      then obtain pre rest e caps where s: "cs = pre @ rest"
        and run: "run p rest (Suc i + length pre) [] [] = Some (e, caps)"
        and m: "m = \<lparr>m_string = line, m_start = Suc i + length pre, m_end = e, m_groups = caps\<rparr>"
        and least: "\<forall>pre' rest'. cs = pre' @ rest' \<and> length pre' < length pre \<longrightarrow>
           run p rest' (Suc i + length pre') [] [] = None"
        by blast
      have "\<forall>pre' rest'. c # cs = pre' @ rest' \<and> length pre' < length (c # pre) \<longrightarrow>
           run p rest' (i + length pre') [] [] = None"
        using least None by (auto simp: Cons_eq_append_conv)
      then show "?R (c # cs) i"
        using s run m
        by (intro exI [of _ "c # pre"] exI [of _ rest] exI [of _ e] exI [of _ caps]) simp
    next
      assume "?R (c # cs) i"
      then obtain pre rest e caps where s: "c # cs = pre @ rest"
        and run: "run p rest (i + length pre) [] [] = Some (e, caps)"
        and m: "m = \<lparr>m_string = line, m_start = i + length pre, m_end = e, m_groups = caps\<rparr>"
        and least: "\<forall>pre' rest'. c # cs = pre' @ rest' \<and> length pre' < length pre \<longrightarrow>
           run p rest' (i + length pre') [] [] = None"
        by blast
      from s run None obtain pre1 where pre: "pre = c # pre1" and cs: "cs = pre1 @ rest"
        by (cases pre) auto
      have "\<forall>pre' rest'. cs = pre' @ rest' \<and> length pre' < length pre1 \<longrightarrow>
           run p rest' (Suc i + length pre') [] [] = None"
      proof (intro allI impI)
        fix pre' rest'
        assume "cs = pre' @ rest' \<and> length pre' < length pre1"
        then show "run p rest' (Suc i + length pre') [] [] = None"
          using least [rule_format, of "c # pre'" rest'] pre by simp
      qed
      then show "?R cs (Suc i)"
        using cs run m pre
        by (intro exI [of _ pre1] exI [of _ rest] exI [of _ e] exI [of _ caps]) simp
    qed
    finally show ?thesis .
  qed
qed

subsection \<open>The search on the tone pattern\<close>

lemma run_tone_None: "run TONE_CSS_RULE s i [] [] = None \<longleftrightarrow> \<not> begins_rule s"
proof -
  have "run TONE_CSS_RULE s i [] [] \<noteq> None \<longleftrightarrow> (\<exists>r. run TONE_CSS_RULE s i [] [] = Some r)"
    by auto
  also have "\<dots> \<longleftrightarrow> begins_rule s"
    unfolding run_tone begins_rule.simps by blast
  finally show ?thesis by blast
qed

lemma re_search_tone_None:
  "re_search TONE_CSS_RULE line = None \<longleftrightarrow> (\<forall>pre rest. line = pre @ rest \<longrightarrow> \<not> begins_rule rest)"
  unfolding re_search_def search_from_None run_tone_None by simp

lemma re_search_tone_Some:
  "re_search TONE_CSS_RULE line = Some m \<longleftrightarrow>
     (\<exists>pre d sp body post. line = pre @ rule_text d sp body @ post \<and> rule_parts d sp body \<and>
        (\<forall>k<length pre. \<not> begins_rule (drop k line)) \<and> m = tone_match line pre sp body)"
  (is "?L = ?R")
proof
  assume ?L
  then obtain pre rest e caps where line: "line = pre @ rest"
    and run: "run TONE_CSS_RULE rest (0 + length pre) [] [] = Some (e, caps)"
    and m: "m = \<lparr>m_string = line, m_start = 0 + length pre, m_end = e, m_groups = caps\<rparr>"
    and least: "\<forall>pre' rest'. line = pre' @ rest' \<and> length pre' < length pre \<longrightarrow>
           run TONE_CSS_RULE rest' (0 + length pre') [] [] = None"
    unfolding re_search_def search_from_Some by blast
  from run obtain d sp body post where rest: "rest = rule_text d sp body @ post"
    and parts: "rule_parts d sp body"
    and r: "(e, caps) = (0 + length pre + length (rule_text d sp body),
             [(2, 0 + length pre + 7 + length sp, 0 + length pre + 7 + length sp + length body),
              (1, 0 + length pre, 0 + length pre + 6)])"
    unfolding run_tone by blast
  have "\<forall>k<length pre. \<not> begins_rule (drop k line)"
  proof (intro allI impI)
    fix k assume k: "k < length pre"
    have "line = take k line @ drop k line \<and> length (take k line) < length pre"
      using k line by simp
    then have "run TONE_CSS_RULE (drop k line) (0 + length (take k line)) [] [] = None"
      using least by blast
    then show "\<not> begins_rule (drop k line)" unfolding run_tone_None .
  qed
  moreover have "m = tone_match line pre sp body"
    using m r by (simp add: tone_match_def rule_text_def)
  ultimately show ?R using line rest parts by blast
next
  assume ?R
  then obtain pre d sp body post where line: "line = pre @ rule_text d sp body @ post"
    and parts: "rule_parts d sp body"
    and least: "\<forall>k<length pre. \<not> begins_rule (drop k line)"
    and m: "m = tone_match line pre sp body" by blast
  have run: "run TONE_CSS_RULE (rule_text d sp body @ post) (0 + length pre) [] [] =
      Some (length pre + (8 + length sp + length body),
         [(2, length pre + 7 + length sp, length pre + 7 + length sp + length body),
          (1, length pre, length pre + 6)])"
    unfolding run_tone using parts
    by (intro exI [of _ d] exI [of _ sp] exI [of _ body] exI [of _ post])
       (simp add: rule_text_def)
  have "\<forall>pre' rest'. line = pre' @ rest' \<and> length pre' < length pre \<longrightarrow>
           run TONE_CSS_RULE rest' (0 + length pre') [] [] = None"
  proof (intro allI impI)
    fix pre' rest'
    assume a: "line = pre' @ rest' \<and> length pre' < length pre"
    then have "drop (length pre') line = rest'" by simp
    then have "\<not> begins_rule rest'" using least a by metis
    then show "run TONE_CSS_RULE rest' (0 + length pre') [] [] = None"
      unfolding run_tone_None .
  qed
  then show ?L
    unfolding re_search_def search_from_Some using line run m
    by (intro exI [of _ pre] exI [of _ "rule_text d sp body @ post"]
        exI [of _ "length pre + (8 + length sp + length body)"]
        exI [of _ "[(2, length pre + 7 + length sp, length pre + 7 + length sp + length body),
          (1, length pre, length pre + 6)]"])
       (simp add: tone_match_def)
qed

lemma slice_middle:
  "b = length pre \<Longrightarrow> e = b + length x \<Longrightarrow> slice (pre @ x @ post) b e = x"
  by (simp add: slice_def)

lemma group_tone_match:
  assumes "line = pre @ rule_text d sp body @ post"
  shows "group (tone_match line pre sp body) 0 = Inr (rule_text d sp body)"
    and "group (tone_match line pre sp body) 1 = Inr (''.tone'' @ [d])"
    and "group (tone_match line pre sp body) 2 = Inr body"
proof -
  have "slice line (length pre) (length pre + (8 + length sp + length body)) = rule_text d sp body"
    unfolding assms by (rule slice_middle) (simp_all add: rule_text_def)
  then show "group (tone_match line pre sp body) 0 = Inr (rule_text d sp body)"
    by (simp add: group_def tone_match_def)
  have "slice (pre @ (''.tone'' @ [d]) @ (sp @ ''{'' @ body @ ''}'' @ post))
      (length pre) (length pre + 6) = ''.tone'' @ [d]"
    by (rule slice_middle) simp_all
  then have "slice line (length pre) (length pre + 6) = ''.tone'' @ [d]"
    using assms by (simp add: rule_text_def)
  then show "group (tone_match line pre sp body) 1 = Inr (''.tone'' @ [d])"
    by (simp add: group_def tone_match_def)
  have "slice ((pre @ ''.tone'' @ [d] @ sp @ ''{'') @ body @ (''}'' @ post))
      (length pre + 7 + length sp) (length pre + 7 + length sp + length body) = body"
    by (rule slice_middle) simp_all
  then have "slice line (length pre + 7 + length sp) (length pre + 7 + length sp + length body) = body"
    using assms by (simp add: rule_text_def)
  then show "group (tone_match line pre sp body) 2 = Inr body"
    by (simp add: group_def tone_match_def)
qed

subsection \<open>The string operations\<close>

lemma startswith_iff: "startswith s p \<longleftrightarrow> (\<exists>post. s = p @ post)"
proof
  assume "startswith s p"
  then have "s = p @ drop (length p) s"
    unfolding startswith_def by (metis append_take_drop_id)
  then show "\<exists>post. s = p @ post" ..
next
  assume "\<exists>post. s = p @ post"
  then show "startswith s p" by (auto simp: startswith_def)
qed

lemma contains_iff: "contains sub s \<longleftrightarrow> (\<exists>pre post. s = pre @ sub @ post)"
proof (induction s)
  case Nil
  then show ?case by auto
next
  case (Cons c cs)
  show ?case
  proof
    assume "contains sub (c # cs)"
    then consider "startswith (c # cs) sub" | "contains sub cs" by auto
    then show "\<exists>pre post. c # cs = pre @ sub @ post"
    proof cases
      case 1
      then obtain post where "c # cs = [] @ sub @ post" unfolding startswith_iff by auto
      then show ?thesis by blast
    next
      case 2
      then obtain pre post where "cs = pre @ sub @ post" using Cons by blast
      then have "c # cs = (c # pre) @ sub @ post" by simp
      then show ?thesis by blast
    qed
  next
    assume "\<exists>pre post. c # cs = pre @ sub @ post"
    then obtain pre post where s: "c # cs = pre @ sub @ post" by blast
    show "contains sub (c # cs)"
    proof (cases pre)
      case Nil
      then have "startswith (c # cs) sub" using s unfolding startswith_iff by auto
      then show ?thesis by simp
    next
      case (Cons a pre')
      then have "cs = pre' @ sub @ post" using s by simp
      then have "contains sub cs" using Cons.IH by blast
      then show ?thesis by simp
    qed
  qed
qed

lemma split_on_not_Nil: "split_on sep s \<noteq> []"
  by (induction s) (auto simp: Let_def)

lemma split_on_hd_prefix: "\<exists>post. s = hd (split_on sep s) @ post"
  by (induction s) (auto simp: Let_def)

lemma in_split_on: "l \<in> set (split_on sep s) \<Longrightarrow> \<exists>pre post. s = pre @ l @ post"
proof (induction s arbitrary: l)
  case Nil
  then show ?case by simp
next
  case (Cons c cs)
  obtain p ps where r: "split_on sep cs = p # ps"
    using split_on_not_Nil [of sep cs] by (cases "split_on sep cs") auto
  show ?case
  proof (cases "c = sep")
    case True
    then have "l = [] \<or> l \<in> set (split_on sep cs)" using Cons.prems by (auto simp: Let_def)
    then show ?thesis
    proof
      assume "l = []"
      then have "c # cs = [] @ l @ (c # cs)" by simp
      then show ?thesis by blast
    next
      assume "l \<in> set (split_on sep cs)"
      then obtain pre post where "cs = pre @ l @ post" using Cons.IH by blast
      then have "c # cs = (c # pre) @ l @ post" by simp
      then show ?thesis by blast
    qed
  next
    case False
    then have "l = c # p \<or> l \<in> set ps" using Cons.prems r by (auto simp: Let_def)
    then show ?thesis
    proof
      assume l: "l = c # p"
      obtain post where cs: "cs = p @ post"
        using split_on_hd_prefix [of cs sep] r by auto
      then have "c # cs = [] @ l @ post" using cs l by simp
      then show ?thesis by blast
    next
      assume "l \<in> set ps"
      then have "l \<in> set (split_on sep cs)" using r by simp
      then obtain pre post where "cs = pre @ l @ post" using Cons.IH by blast
      then have "c # cs = (c # pre) @ l @ post" by simp
      then show ?thesis by blast
    qed
  qed
qed

subsection \<open>The loops over the lines\<close>

lemma re_search_groups:
  assumes "re_search TONE_CSS_RULE line = Some m"
  shows "\<exists>pre d sp body post. line = pre @ rule_text d sp body @ post \<and> rule_parts d sp body \<and>
     (\<forall>k<length pre. \<not> begins_rule (drop k line)) \<and>
     group m 0 = Inr (rule_text d sp body) \<and>
     group m 1 = Inr (''.tone'' @ [d]) \<and> group m 2 = Inr body"
proof -
  from assms obtain pre d sp body post where line: "line = pre @ rule_text d sp body @ post"
    and parts: "rule_parts d sp body"
    and least: "\<forall>k<length pre. \<not> begins_rule (drop k line)"
    and m: "m = tone_match line pre sp body"
    unfolding re_search_tone_Some by blast
  show ?thesis
    using line parts least group_tone_match [OF line] unfolding m by blast
qed

lemma match_groups_None: "re_search TONE_CSS_RULE line = None \<Longrightarrow> match_groups line = []"
  by (simp add: match_groups_def)

lemma match_groups_Some:
  assumes "re_search TONE_CSS_RULE line = Some m"
  shows "\<exists>pre d sp body post. line = pre @ rule_text d sp body @ post \<and> rule_parts d sp body \<and>
     (\<forall>k<length pre. \<not> begins_rule (drop k line)) \<and>
     group m 1 = Inr (''.tone'' @ [d]) \<and> group m 2 = Inr body \<and>
     match_groups line = [(''.tone'' @ [d], body)]"
proof -
  from re_search_groups [OF assms] obtain pre d sp body post
    where line: "line = pre @ rule_text d sp body @ post" and parts: "rule_parts d sp body"
      and least: "\<forall>k<length pre. \<not> begins_rule (drop k line)"
      and g: "group m 1 = Inr (''.tone'' @ [d])" "group m 2 = Inr body"
    by blast
  have "match_groups line = [(''.tone'' @ [d], body)]"
    using assms g by (simp add: match_groups_def)
  then show ?thesis using line parts least g by blast
qed

lemma line_54_eq:
  "line_54 line (rules, w) =
     Inr (if contains ''.tone'' line then
            (if re_search TONE_CSS_RULE line = None then (rules, showWarning WARN_ONE_LINER w)
             else (rules @ [line], w))
          else (rules, w))"
  by (simp add: line_54_def split: option.splits)

lemma line_49_eq:
  "line_49 line (rules, w) =
     Inr (if startswith line ''.tone'' then
            (if re_search TONE_CSS_RULE line = None then (rules, showWarning WARN_ONE_LINER w)
             else (rules @ match_groups line, w))
          else (rules, w))"
proof (cases "re_search TONE_CSS_RULE line")
  case None
  then show ?thesis by (simp add: line_49_def)
next
  case (Some m)
  from match_groups_Some [OF Some] obtain d body
    where "group m 1 = Inr (''.tone'' @ [d])" "group m 2 = Inr body"
      "match_groups line = [(''.tone'' @ [d], body)]" by blast
  then show ?thesis using Some by (simp add: line_49_def)
qed

lemma warned_0: "warned w 0 = w"
  by (simp add: warned_def)

lemma warned_showWarning: "warned (showWarning WARN_ONE_LINER w) n = warned w (Suc n)"
  by (simp add: warned_def showWarning_def replicate_app_Cons_same)

lemma for_each_line_54:
  "for_each line_54 ls (rules, w) =
     Inr (rules @ filter (\<lambda>l. contains ''.tone'' l \<and> re_search TONE_CSS_RULE l \<noteq> None) ls,
          warned w (length (filter (\<lambda>l. contains ''.tone'' l \<and> re_search TONE_CSS_RULE l = None) ls)))"
proof (induction ls arbitrary: rules w)
  case Nil
  then show ?case by (simp add: warned_0)
next
  case (Cons l ls)
  show ?case
    unfolding for_each.simps line_54_eq
    by (simp add: Cons warned_showWarning)
qed

lemma for_each_line_49:
  "for_each line_49 ls (rules, w) =
     Inr (rules @ concat (map match_groups (filter (\<lambda>l. startswith l ''.tone'') ls)),
          warned w (length (filter (\<lambda>l. startswith l ''.tone'' \<and> re_search TONE_CSS_RULE l = None) ls)))"
proof (induction ls arbitrary: rules w)
  case Nil
  then show ?case by (simp add: warned_0)
next
  case (Cons l ls)
  show ?case
    unfolding for_each.simps line_49_eq
    by (simp add: Cons warned_showWarning match_groups_None)
qed

subsection \<open>Which lines are accepted\<close>

lemma begins_rule_contains: "begins_rule rest \<Longrightarrow> contains ''.tone'' (pre @ rest)"
proof -
  assume "begins_rule rest"
  then obtain d sp body post where "rest = rule_text d sp body @ post"
    by (auto simp: begins_rule.simps)
  then have "pre @ rest = pre @ ''.tone'' @ ([d] @ sp @ ''{'' @ body @ ''}'' @ post)"
    by (simp add: rule_text_def)
  then show ?thesis unfolding contains_iff by blast
qed

lemma re_search_tone_found:
  "(\<exists>m. re_search TONE_CSS_RULE line = Some m) \<longleftrightarrow> (\<exists>pre rest. line = pre @ rest \<and> begins_rule rest)"
  using re_search_tone_None [of line] by (cases "re_search TONE_CSS_RULE line") auto

lemma rules_54_eq:
  "rules_54 css w =
     Inr (filter (\<lambda>l. contains ''.tone'' l \<and> re_search TONE_CSS_RULE l \<noteq> None) (split_on CHR 0x0A css),
          warned w (length (filter (\<lambda>l. contains ''.tone'' l \<and> re_search TONE_CSS_RULE l = None)
             (split_on CHR 0x0A css))))"
  by (simp add: rules_54_def for_each_line_54)

lemma rules_49_eq:
  "rules_49 css w =
     Inr (concat (map match_groups (filter (\<lambda>l. startswith l ''.tone'') (split_on CHR 0x0A css))),
          warned w (length (filter (\<lambda>l. startswith l ''.tone'' \<and> re_search TONE_CSS_RULE l = None)
             (split_on CHR 0x0A css))))"
  by (simp add: rules_49_def for_each_line_49)

lemma search_two_digits: "re_search TONE_CSS_RULE ''.tone12 { color: red }'' = None"
  by (simp add: re_search_def TONE_CSS_RULE_def is_digit_def)

text \<open>
  C4, as stated, at the line \<^verbatim>\<open>.tone12 { color: red }\<close>: the pattern has exactly one digit after
  \<^verbatim>\<open>.tone\<close>, the search finds nothing, and both extractions reject the line with a warning.
\<close>

theorem two_digit_selector_counterexample:
  "re_search TONE_CSS_RULE ''.tone12 { color: red }'' = None
   \<and> rules_54 ''.tone12 { color: red }'' \<lparr>warnings = [], scripts = []\<rparr>
       = Inr ([], \<lparr>warnings = [WARN_ONE_LINER], scripts = []\<rparr>)
   \<and> rules_49 ''.tone12 { color: red }'' \<lparr>warnings = [], scripts = []\<rparr>
       = Inr ([], \<lparr>warnings = [WARN_ONE_LINER], scripts = []\<rparr>)"
  by (simp add: rules_54_eq rules_49_eq search_two_digits match_groups_def warned_def
      startswith_def)

text \<open>
  C4, amended. The pattern is found in a line exactly when the line has, at some place,
  \<^verbatim>\<open>.tone\<close>, exactly one decimal digit, any number of space characters, an opening brace,
  a run of characters other than the closing brace, and a closing brace. The 2.1.54
  extraction takes the line as a rule exactly when the line contains \<^verbatim>\<open>.tone\<close> and has such
  a place; the 2.1.49 extraction takes a rule from the line exactly when the line starts
  with \<^verbatim>\<open>.tone\<close> and has such a place.
\<close>

theorem tone_rule_accepted:
  "((\<exists>m. re_search TONE_CSS_RULE line = Some m) \<longleftrightarrow>
      (\<exists>pre d sp body post. line = pre @ ''.tone'' @ [d] @ sp @ ''{'' @ body @ ''}'' @ post \<and>
         is_digit d \<and> set sp \<subseteq> {CHR '' ''} \<and> CHR ''}'' \<notin> set body))
   \<and> (line_54 line (rules, w) = Inr (rules @ [line], w) \<longleftrightarrow>
        contains ''.tone'' line \<and> (\<exists>m. re_search TONE_CSS_RULE line = Some m))
   \<and> ((\<exists>r. line_49 line (rules', w) = Inr (rules' @ [r], w)) \<longleftrightarrow>
        startswith line ''.tone'' \<and> (\<exists>m. re_search TONE_CSS_RULE line = Some m))"
proof (intro conjI)
  have "(\<exists>pre rest. line = pre @ rest \<and> begins_rule rest) \<longleftrightarrow>
      (\<exists>pre d sp body post. line = pre @ ''.tone'' @ [d] @ sp @ ''{'' @ body @ ''}'' @ post \<and>
         is_digit d \<and> set sp \<subseteq> {CHR '' ''} \<and> CHR ''}'' \<notin> set body)"
    unfolding begins_rule.simps rule_text_def rule_parts_def by (simp; blast)
  then show "(\<exists>m. re_search TONE_CSS_RULE line = Some m) \<longleftrightarrow>
      (\<exists>pre d sp body post. line = pre @ ''.tone'' @ [d] @ sp @ ''{'' @ body @ ''}'' @ post \<and>
         is_digit d \<and> set sp \<subseteq> {CHR '' ''} \<and> CHR ''}'' \<notin> set body)"
    unfolding re_search_tone_found .
  show "line_54 line (rules, w) = Inr (rules @ [line], w) \<longleftrightarrow>
        contains ''.tone'' line \<and> (\<exists>m. re_search TONE_CSS_RULE line = Some m)"
    unfolding line_54_eq by (auto simp: showWarning_def)
  show "(\<exists>r. line_49 line (rules', w) = Inr (rules' @ [r], w)) \<longleftrightarrow>
        startswith line ''.tone'' \<and> (\<exists>m. re_search TONE_CSS_RULE line = Some m)"
  proof (cases "re_search TONE_CSS_RULE line")
    case None
    then show ?thesis unfolding line_49_eq by (auto simp: showWarning_def)
  next
    case (Some m)
    from match_groups_Some [OF Some] obtain r where "match_groups line = [r]" by blast
    then show ?thesis unfolding line_49_eq using Some by auto
  qed
qed

theorem tone_rule_accepted_witness:
  "(\<exists>m. re_search TONE_CSS_RULE ''a .tone4   {x{y} b'' = Some m)
   \<and> line_54 ''a .tone4   {x{y} b'' ([], \<lparr>warnings = [], scripts = []\<rparr>)
       = Inr ([''a .tone4   {x{y} b''], \<lparr>warnings = [], scripts = []\<rparr>)"
proof -
  have "''a .tone4   {x{y} b'' = ''a '' @ ''.tone'' @ [CHR ''4''] @ ''   '' @ ''{'' @ ''x{y'' @ ''}'' @ '' b''
      \<and> is_digit CHR ''4'' \<and> set ''   '' \<subseteq> {CHR '' ''} \<and> CHR ''}'' \<notin> set ''x{y''"
    by (simp add: is_digit_def)
  then have m: "\<exists>m. re_search TONE_CSS_RULE ''a .tone4   {x{y} b'' = Some m"
    using tone_rule_accepted [of "''a .tone4   {x{y} b''" "[]" "\<lparr>warnings = [], scripts = []\<rparr>" "[]"]
    by blast
  have "contains ''.tone'' ''a .tone4   {x{y} b''" by (simp add: startswith_def)
  then show ?thesis
    using m tone_rule_accepted [of "''a .tone4   {x{y} b''" "[]" "\<lparr>warnings = [], scripts = []\<rparr>" "[]"]
    by simp
qed

subsection \<open>One rule per line\<close>

lemma first_occurrence_inject:
  "x \<notin> set xs \<Longrightarrow> x \<notin> set ys \<Longrightarrow> xs @ x # r = ys @ x # r' \<Longrightarrow> xs = ys \<and> r = r'"
proof (induction xs arbitrary: ys)
  case Nil
  then show ?case by (cases ys) auto
next
  case (Cons a xs)
  then show ?case by (cases ys) auto
qed

lemma spaces_brace_inject:
  assumes "sp @ CHR ''{'' # r = sp' @ CHR ''{'' # r'"
    and "set sp \<subseteq> {CHR '' ''}" and "set sp' \<subseteq> {CHR '' ''}"
  shows "sp = sp' \<and> r = r'"
proof -
  have "CHR ''{'' \<notin> set sp" "CHR ''{'' \<notin> set sp'" using assms(2,3) by auto
  then show ?thesis using assms(1) by (rule first_occurrence_inject)
qed

lemma body_brace_inject:
  assumes "b @ CHR ''}'' # r = b' @ CHR ''}'' # r'"
    and "CHR ''}'' \<notin> set b" and "CHR ''}'' \<notin> set b'"
  shows "b = b' \<and> r = r'"
  using assms(2,3,1) by (rule first_occurrence_inject)

lemma rule_text_inject:
  assumes "rule_text d sp body @ post = rule_text d' sp' body' @ post'"
    and "rule_parts d sp body" and "rule_parts d' sp' body'"
  shows "d = d' \<and> sp = sp' \<and> body = body' \<and> post = post'"
proof -
  have d: "d = d'" and 1: "sp @ CHR ''{'' # (body @ CHR ''}'' # post) = sp' @ CHR ''{'' # (body' @ CHR ''}'' # post')"
    using assms(1) by (simp_all add: rule_text_def)
  have 2: "sp = sp' \<and> body @ CHR ''}'' # post = body' @ CHR ''}'' # post'"
    using spaces_brace_inject [OF 1] assms(2,3) by (simp add: rule_parts_def)
  then have "body = body' \<and> post = post'"
    using body_brace_inject [of body post body' post'] assms(2,3) by (simp add: rule_parts_def)
  then show ?thesis using d 2 by simp
qed

lemma match_groups_begins:
  assumes "rule_parts d sp body"
  shows "match_groups (rule_text d sp body @ post) = [(''.tone'' @ [d], body)]"
proof -
  let ?line = "rule_text d sp body @ post"
  have "begins_rule ?line" using assms by (rule begins_rule.intros)
  then have "\<exists>m. re_search TONE_CSS_RULE ?line = Some m"
    unfolding re_search_tone_found by (intro exI [of _ "[]"] exI [of _ ?line]) simp
  then obtain m where m: "re_search TONE_CSS_RULE ?line = Some m" ..
  from match_groups_Some [OF m] obtain pre d' sp' body' post'
    where line: "?line = pre @ rule_text d' sp' body' @ post'" and parts: "rule_parts d' sp' body'"
      and least: "\<forall>k<length pre. \<not> begins_rule (drop k ?line)"
      and g: "match_groups ?line = [(''.tone'' @ [d'], body')]"
    by blast
  have "pre = []"
  proof (rule ccontr)
    assume "pre \<noteq> []"
    then have "\<not> begins_rule (drop 0 ?line)" using least by blast
    then show False using \<open>begins_rule ?line\<close> by simp
  qed
  then have "d = d' \<and> sp = sp' \<and> body = body' \<and> post = post'"
    using rule_text_inject [OF _ assms parts, of post post'] line by simp
  then show ?thesis using g by simp
qed

lemma begins_rule_startswith: "begins_rule s \<Longrightarrow> startswith s ''.tone''"
  unfolding startswith_iff by (auto simp: begins_rule.simps rule_text_def)

lemma match_groups_leftmost:
  assumes "line = pre @ rule_text d sp body @ post" and "rule_parts d sp body"
    and "\<forall>k<length pre. \<not> begins_rule (drop k line)"
  shows "re_search TONE_CSS_RULE line \<noteq> None"
    and "match_groups line = [(''.tone'' @ [d], body)]"
proof -
  have m: "re_search TONE_CSS_RULE line = Some (tone_match line pre sp body)"
    unfolding re_search_tone_Some using assms by blast
  then show "re_search TONE_CSS_RULE line \<noteq> None" by simp
  show "match_groups line = [(''.tone'' @ [d], body)]"
    using m group_tone_match(2,3) [OF assms(1)] by (simp add: match_groups_def)
qed

text \<open>
  C10. In the 2.1.49 extraction a line adds no rule or one rule. When it adds one, the
  rule is the selector and body of the leftmost place of the line where a tone rule
  begins, and no warning is shown. Conversely a line that starts with \<^verbatim>\<open>.tone\<close> and has a
  place where a tone rule begins adds exactly the selector and body of the leftmost such
  place and shows no warning. A line that begins with a tone rule adds that rule alone
  without a warning, whatever follows it on the line: of \<^verbatim>\<open>.tone1{a:b} .tone2{c:d}\<close> only the
  first rule is kept, and so it is of \<^verbatim>\<open>.tonex .tone1{a:b} .tone2{c:d}\<close>, where the leftmost
  rule does not stand at the start of the line.
\<close>

theorem legacy_line_leftmost_rule:
  "(\<exists>rules' w'. line_49 line (rules, w) = Inr (rules', w') \<and>
      (rules' = rules \<or>
       (\<exists>pre d sp body post. rules' = rules @ [(''.tone'' @ [d], body)] \<and> w' = w \<and>
          line = pre @ rule_text d sp body @ post \<and> rule_parts d sp body \<and>
          (\<forall>k<length pre. \<not> begins_rule (drop k line)))))
   \<and> (startswith line ''.tone'' \<and> line = pre0 @ rule_text d0 sp0 body0 @ post0 \<and>
          rule_parts d0 sp0 body0 \<and> (\<forall>k<length pre0. \<not> begins_rule (drop k line)) \<longrightarrow>
        line_49 line (rules, w) = Inr (rules @ [(''.tone'' @ [d0], body0)], w))
   \<and> (startswith line ''.tone'' \<and> (\<exists>before rest. line = before @ rest \<and> begins_rule rest) \<longrightarrow>
        (\<exists>pre d sp body post. line = pre @ rule_text d sp body @ post \<and> rule_parts d sp body \<and>
           (\<forall>k<length pre. \<not> begins_rule (drop k line)) \<and>
           line_49 line (rules, w) = Inr (rules @ [(''.tone'' @ [d], body)], w)))
   \<and> (rule_parts d1 sp1 body1 \<longrightarrow>
        line_49 (rule_text d1 sp1 body1 @ rest1) (rules, w)
          = Inr (rules @ [(''.tone'' @ [d1], body1)], w))
   \<and> rules_49 ''.tone1{a:b} .tone2{c:d}'' w = Inr ([(''.tone1'', ''a:b'')], w)
   \<and> rules_49 ''.tonex .tone1{a:b} .tone2{c:d}'' w = Inr ([(''.tone1'', ''a:b'')], w)"
proof (intro conjI)
  show "\<exists>rules' w'. line_49 line (rules, w) = Inr (rules', w') \<and>
      (rules' = rules \<or>
       (\<exists>pre d sp body post. rules' = rules @ [(''.tone'' @ [d], body)] \<and> w' = w \<and>
          line = pre @ rule_text d sp body @ post \<and> rule_parts d sp body \<and>
          (\<forall>k<length pre. \<not> begins_rule (drop k line))))"
  proof (cases "re_search TONE_CSS_RULE line")
    case None
    then show ?thesis unfolding line_49_eq by simp
  next
    case (Some m)
    from match_groups_Some [OF Some] obtain pre d sp body post
      where f: "line = pre @ rule_text d sp body @ post \<and> rule_parts d sp body \<and>
        (\<forall>k<length pre. \<not> begins_rule (drop k line))"
        and g: "match_groups line = [(''.tone'' @ [d], body)]"
      by blast
    show ?thesis
    proof (cases "startswith line ''.tone''")
      case True
      then have "line_49 line (rules, w) = Inr (rules @ [(''.tone'' @ [d], body)], w)"
        unfolding line_49_eq using Some g by simp
      then show ?thesis using f by blast
    next
      case False
      then show ?thesis unfolding line_49_eq by simp
    qed
  qed
  show left: "startswith line ''.tone'' \<and> line = pre0 @ rule_text d0 sp0 body0 @ post0 \<and>
          rule_parts d0 sp0 body0 \<and> (\<forall>k<length pre0. \<not> begins_rule (drop k line)) \<longrightarrow>
        line_49 line (rules, w) = Inr (rules @ [(''.tone'' @ [d0], body0)], w)"
    for line pre0 d0 sp0 body0 post0 rules
  proof
    assume a: "startswith line ''.tone'' \<and> line = pre0 @ rule_text d0 sp0 body0 @ post0 \<and>
          rule_parts d0 sp0 body0 \<and> (\<forall>k<length pre0. \<not> begins_rule (drop k line))"
    then have l: "line = pre0 @ rule_text d0 sp0 body0 @ post0" and p: "rule_parts d0 sp0 body0"
      and m: "\<forall>k<length pre0. \<not> begins_rule (drop k line)" and s: "startswith line ''.tone''"
      by blast+
    show "line_49 line (rules, w) = Inr (rules @ [(''.tone'' @ [d0], body0)], w)"
      unfolding line_49_eq using s match_groups_leftmost [OF l p m] by simp
  qed
  show "startswith line ''.tone'' \<and> (\<exists>before rest. line = before @ rest \<and> begins_rule rest) \<longrightarrow>
        (\<exists>pre d sp body post. line = pre @ rule_text d sp body @ post \<and> rule_parts d sp body \<and>
           (\<forall>k<length pre. \<not> begins_rule (drop k line)) \<and>
           line_49 line (rules, w) = Inr (rules @ [(''.tone'' @ [d], body)], w))"
  proof
    assume a: "startswith line ''.tone'' \<and> (\<exists>before rest. line = before @ rest \<and> begins_rule rest)"
    then obtain m where "re_search TONE_CSS_RULE line = Some m"
      using re_search_tone_found [of line] by blast
    from match_groups_Some [OF this] obtain pre d sp body post
      where f: "line = pre @ rule_text d sp body @ post \<and> rule_parts d sp body \<and>
        (\<forall>k<length pre. \<not> begins_rule (drop k line))"
      by blast
    then have "line_49 line (rules, w) = Inr (rules @ [(''.tone'' @ [d], body)], w)"
      using left [of line pre d sp body post rules] a by blast
    then show "\<exists>pre d sp body post. line = pre @ rule_text d sp body @ post \<and> rule_parts d sp body \<and>
           (\<forall>k<length pre. \<not> begins_rule (drop k line)) \<and>
           line_49 line (rules, w) = Inr (rules @ [(''.tone'' @ [d], body)], w)"
      using f by blast
  qed
  show one: "rule_parts d1 sp1 body1 \<longrightarrow>
        line_49 (rule_text d1 sp1 body1 @ rest1) (rules, w)
          = Inr (rules @ [(''.tone'' @ [d1], body1)], w)"
    for d1 sp1 body1 rest1 rules
  proof
    assume p: "rule_parts d1 sp1 body1"
    let ?line = "rule_text d1 sp1 body1 @ rest1"
    have b: "begins_rule ?line" using p by (rule begins_rule.intros)
    have "?line = [] @ rule_text d1 sp1 body1 @ rest1 \<and> (\<forall>k<length ([]::string). \<not> begins_rule (drop k ?line))"
      by simp
    then show "line_49 ?line (rules, w) = Inr (rules @ [(''.tone'' @ [d1], body1)], w)"
      using left [of ?line "[]" d1 sp1 body1 rest1 rules] begins_rule_startswith [OF b] p by blast
  qed
  have "rule_parts CHR ''1'' [] ''a:b''" by (simp add: rule_parts_def is_digit_def)
  then have "line_49 (rule_text CHR ''1'' [] ''a:b'' @ '' .tone2{c:d}'') ([], w)
      = Inr ([] @ [(''.tone'' @ [CHR ''1''], ''a:b'')], w)"
    using one by blast
  then show "rules_49 ''.tone1{a:b} .tone2{c:d}'' w = Inr ([(''.tone1'', ''a:b'')], w)"
    by (simp add: rules_49_def rule_text_def)
  show "rules_49 ''.tonex .tone1{a:b} .tone2{c:d}'' w = Inr ([(''.tone1'', ''a:b'')], w)"
    by (simp add: rules_49_eq match_groups_def group_def slice_def warned_def startswith_def
        re_search_def TONE_CSS_RULE_def is_digit_def)
qed

theorem legacy_line_leftmost_rule_witness:
  "startswith ''.tonex .tone3  {x:y}.tone4{z:u}'' ''.tone''
   \<and> ''.tonex .tone3  {x:y}.tone4{z:u}'' = ''.tonex '' @ rule_text CHR ''3'' ''  '' ''x:y'' @ ''.tone4{z:u}''
   \<and> rule_parts CHR ''3'' ''  '' ''x:y''
   \<and> \<not> begins_rule (drop 0 ''.tonex .tone3  {x:y}.tone4{z:u}'')
   \<and> \<not> begins_rule (drop 1 ''.tonex .tone3  {x:y}.tone4{z:u}'')
   \<and> \<not> begins_rule (drop 2 ''.tonex .tone3  {x:y}.tone4{z:u}'')
   \<and> \<not> begins_rule (drop 3 ''.tonex .tone3  {x:y}.tone4{z:u}'')
   \<and> \<not> begins_rule (drop 4 ''.tonex .tone3  {x:y}.tone4{z:u}'')
   \<and> \<not> begins_rule (drop 5 ''.tonex .tone3  {x:y}.tone4{z:u}'')
   \<and> \<not> begins_rule (drop 6 ''.tonex .tone3  {x:y}.tone4{z:u}'')
   \<and> line_49 ''.tonex .tone3  {x:y}.tone4{z:u}'' ([], \<lparr>warnings = [], scripts = []\<rparr>)
       = Inr ([(''.tone3'', ''x:y'')], \<lparr>warnings = [], scripts = []\<rparr>)"
proof -
  let ?line = "''.tonex .tone3  {x:y}.tone4{z:u}''"
  have s: "startswith ?line ''.tone''" by (simp add: startswith_def)
  have l: "?line = ''.tonex '' @ rule_text CHR ''3'' ''  '' ''x:y'' @ ''.tone4{z:u}''"
    by (simp add: rule_text_def)
  have p: "rule_parts CHR ''3'' ''  '' ''x:y''" by (simp add: rule_parts_def is_digit_def)
  have m: "\<forall>k<length ''.tonex ''. \<not> begins_rule (drop k ?line)"
  proof (intro allI impI)
    fix k :: nat assume "k < length ''.tonex ''"
    then have "k \<in> {0, 1, 2, 3, 4, 5, 6}" by auto
    then have "run TONE_CSS_RULE (drop k ?line) k [] [] = None"
      by (auto simp: TONE_CSS_RULE_def is_digit_def)
    then show "\<not> begins_rule (drop k ?line)" unfolding run_tone_None .
  qed
  have "line_49 ?line ([], \<lparr>warnings = [], scripts = []\<rparr>)
      = Inr ([] @ [(''.tone'' @ [CHR ''3''], ''x:y'')], \<lparr>warnings = [], scripts = []\<rparr>)"
    using s l p m
      legacy_line_leftmost_rule [of ?line "[]" "\<lparr>warnings = [], scripts = []\<rparr>"
        "''.tonex ''" "CHR ''3''" "''  ''" "''x:y''" "''.tone4{z:u}''"]
    by blast
  then have c: "line_49 ?line ([], \<lparr>warnings = [], scripts = []\<rparr>)
      = Inr ([(''.tone3'', ''x:y'')], \<lparr>warnings = [], scripts = []\<rparr>)"
    by simp
  have n: "\<not> begins_rule (drop 0 ?line)" "\<not> begins_rule (drop 1 ?line)"
    "\<not> begins_rule (drop 2 ?line)" "\<not> begins_rule (drop 3 ?line)"
    "\<not> begins_rule (drop 4 ?line)" "\<not> begins_rule (drop 5 ?line)"
    "\<not> begins_rule (drop 6 ?line)"
    unfolding run_tone_None [of _ 0, symmetric]
    by (simp_all add: TONE_CSS_RULE_def is_digit_def)
  show ?thesis by (intro conjI s l p n c)
qed

subsection \<open>What the 2.1.54 extraction keeps\<close>

lemma search_tone1_red:
  "re_search TONE_CSS_RULE ''.tone1 { color: red; }'' =
     Some \<lparr>m_string = ''.tone1 { color: red; }'', m_start = 0, m_end = 22,
           m_groups = [(2, 8, 21), (1, 0, 6)]\<rparr>"
  by (simp add: re_search_def TONE_CSS_RULE_def is_digit_def)

text \<open>
  C2, as stated, at the line \<^verbatim>\<open>x .tone1 {a:b} y\<close>: the rule kept is the whole line, with the
  text before and after the rule, not the selector and body alone.
\<close>

theorem modern_rule_text_counterexample:
  "rules_54 ''x .tone1 {a:b} y'' \<lparr>warnings = [], scripts = []\<rparr>
     = Inr ([''x .tone1 {a:b} y''], \<lparr>warnings = [], scripts = []\<rparr>)
   \<and> ''x .tone1 {a:b} y'' = ''x '' @ rule_text CHR ''1'' '' '' ''a:b'' @ '' y''
   \<and> ''x .tone1 {a:b} y'' \<noteq> rule_text CHR ''1'' '' '' ''a:b''"
  by (simp add: rules_54_eq warned_def startswith_def rule_text_def re_search_def
      TONE_CSS_RULE_def is_digit_def)

text \<open>
  C2, amended. The 2.1.54 extraction keeps every line that contains \<^verbatim>\<open>.tone\<close> and in which
  the pattern is found, whole and unchanged, in the order of the lines; a line in which
  a tone rule begins somewhere is kept with all that stands before and after the rule.
  For the stylesheet \<^verbatim>\<open>.tone1 { color: red; }\<close> the rules are that one line, which is the
  selector \<^verbatim>\<open>.tone1\<close>, a space, and the body with its two spaces between the braces; the
  function does not split it into selector and body.
\<close>

theorem modern_keeps_whole_line:
  "(begins_rule rest \<longrightarrow> line_54 (pre @ rest) (rules, w) = Inr (rules @ [pre @ rest], w))
   \<and> (\<exists>w'. rules_54 css w =
         Inr (filter (\<lambda>l. contains ''.tone'' l \<and> re_search TONE_CSS_RULE l \<noteq> None)
                (split_on CHR 0x0A css), w'))
   \<and> rules_54 ''.tone1 { color: red; }'' w = Inr ([''.tone1 { color: red; }''], w)
   \<and> ''.tone1 { color: red; }'' = rule_text CHR ''1'' '' '' '' color: red; ''"
proof (intro conjI)
  show "begins_rule rest \<longrightarrow> line_54 (pre @ rest) (rules, w) = Inr (rules @ [pre @ rest], w)"
  proof
    assume b: "begins_rule rest"
    then have "\<exists>m. re_search TONE_CSS_RULE (pre @ rest) = Some m"
      unfolding re_search_tone_found by blast
    then show "line_54 (pre @ rest) (rules, w) = Inr (rules @ [pre @ rest], w)"
      unfolding line_54_eq using begins_rule_contains [OF b, of pre] by auto
  qed
  show "\<exists>w'. rules_54 css w =
         Inr (filter (\<lambda>l. contains ''.tone'' l \<and> re_search TONE_CSS_RULE l \<noteq> None)
                (split_on CHR 0x0A css), w')"
    unfolding rules_54_eq by blast
  show "rules_54 ''.tone1 { color: red; }'' w = Inr ([''.tone1 { color: red; }''], w)"
    by (simp add: rules_54_eq search_tone1_red warned_def startswith_def)
  show "''.tone1 { color: red; }'' = rule_text CHR ''1'' '' '' '' color: red; ''"
    by (simp add: rule_text_def)
qed

theorem modern_keeps_whole_line_witness:
  "begins_rule ''.tone2{c:d} /* two */''
   \<and> line_54 ''  .tone2{c:d} /* two */'' ([], \<lparr>warnings = [], scripts = []\<rparr>)
       = Inr ([''  .tone2{c:d} /* two */''], \<lparr>warnings = [], scripts = []\<rparr>)"
proof -
  have "rule_parts CHR ''2'' [] ''c:d''" by (simp add: rule_parts_def is_digit_def)
  then have "begins_rule (rule_text CHR ''2'' [] ''c:d'' @ '' /* two */'')"
    by (rule begins_rule.intros)
  then have h: "begins_rule ''.tone2{c:d} /* two */''" by (simp add: rule_text_def)
  show ?thesis
    using h modern_keeps_whole_line [of "''.tone2{c:d} /* two */''" "''  ''" "[]"
        "\<lparr>warnings = [], scripts = []\<rparr>" "[]"]
    by simp
qed

subsection \<open>Lines that are not one-liners\<close>

lemma for_each_append:
  "for_each body (xs @ ys) s = (case for_each body xs s of Inl e \<Rightarrow> Inl e | Inr s' \<Rightarrow> for_each body ys s')"
  by (induction xs arbitrary: s) (auto split: sum.splits)

lemma search_tone3_green: "re_search TONE_CSS_RULE ''.tone3 { color: green'' = None"
  by (simp add: re_search_def TONE_CSS_RULE_def is_digit_def)

text \<open>
  C5. Let a line of the stylesheet contain no match of the pattern. If it is a candidate
  of the 2.1.54 extraction (it contains \<^verbatim>\<open>.tone\<close>), the extraction is: the loop over the lines
  before it, then exactly one more warning and no more rule, then the loop over the lines
  after it. The same holds for the 2.1.49 extraction when the line starts with \<^verbatim>\<open>.tone\<close>.
  The stylesheet \<^verbatim>\<open>.tone3 { color: green\<close> gives no rule and exactly one warning under both.
\<close>

theorem malformed_candidate_line:
  assumes "split_on CHR 0x0A css = before @ [line] @ after"
    and "re_search TONE_CSS_RULE line = None"
  shows "(contains ''.tone'' line \<longrightarrow>
           (\<exists>r1 w1. for_each line_54 before ([], w) = Inr (r1, w1) \<and>
              rules_54 css w =
                for_each line_54 after (r1, w1\<lparr>warnings := warnings w1 @ [WARN_ONE_LINER]\<rparr>)))
       \<and> (startswith line ''.tone'' \<longrightarrow>
           (\<exists>r1 w1. for_each line_49 before ([], w) = Inr (r1, w1) \<and>
              rules_49 css w =
                for_each line_49 after (r1, w1\<lparr>warnings := warnings w1 @ [WARN_ONE_LINER]\<rparr>)))
       \<and> rules_54 ''.tone3 { color: green'' w
            = Inr ([], w\<lparr>warnings := warnings w @ [WARN_ONE_LINER]\<rparr>)
       \<and> rules_49 ''.tone3 { color: green'' w
            = Inr ([], w\<lparr>warnings := warnings w @ [WARN_ONE_LINER]\<rparr>)"
proof (intro conjI impI)
  assume c: "contains ''.tone'' line"
  obtain r1 w1 where b: "for_each line_54 before ([], w) = Inr (r1, w1)"
    unfolding for_each_line_54 by blast
  have "line_54 line (r1, w1) = Inr (r1, w1\<lparr>warnings := warnings w1 @ [WARN_ONE_LINER]\<rparr>)"
    unfolding line_54_eq using c assms(2) by (simp add: showWarning_def)
  then have "rules_54 css w =
      for_each line_54 after (r1, w1\<lparr>warnings := warnings w1 @ [WARN_ONE_LINER]\<rparr>)"
    unfolding rules_54_def assms(1) for_each_append b by simp
  then show "\<exists>r1 w1. for_each line_54 before ([], w) = Inr (r1, w1) \<and>
      rules_54 css w = for_each line_54 after (r1, w1\<lparr>warnings := warnings w1 @ [WARN_ONE_LINER]\<rparr>)"
    using b by blast
next
  assume c: "startswith line ''.tone''"
  obtain r1 w1 where b: "for_each line_49 before ([], w) = Inr (r1, w1)"
    unfolding for_each_line_49 by blast
  have "line_49 line (r1, w1) = Inr (r1, w1\<lparr>warnings := warnings w1 @ [WARN_ONE_LINER]\<rparr>)"
    unfolding line_49_eq using c assms(2) by (simp add: showWarning_def)
  then have "rules_49 css w =
      for_each line_49 after (r1, w1\<lparr>warnings := warnings w1 @ [WARN_ONE_LINER]\<rparr>)"
    unfolding rules_49_def assms(1) for_each_append b by simp
  then show "\<exists>r1 w1. for_each line_49 before ([], w) = Inr (r1, w1) \<and>
      rules_49 css w = for_each line_49 after (r1, w1\<lparr>warnings := warnings w1 @ [WARN_ONE_LINER]\<rparr>)"
    using b by blast
next
  show "rules_54 ''.tone3 { color: green'' w = Inr ([], w\<lparr>warnings := warnings w @ [WARN_ONE_LINER]\<rparr>)"
    by (simp add: rules_54_eq search_tone3_green warned_def startswith_def)
  show "rules_49 ''.tone3 { color: green'' w = Inr ([], w\<lparr>warnings := warnings w @ [WARN_ONE_LINER]\<rparr>)"
    by (simp add: rules_49_eq search_tone3_green warned_def startswith_def match_groups_def)
qed

theorem malformed_candidate_line_witness:
  "split_on CHR 0x0A ''.tone1 {a:b}\<newline>.tone3 { color: green\<newline>.tone2 {c:d}''
     = [''.tone1 {a:b}''] @ [''.tone3 { color: green''] @ [''.tone2 {c:d}'']
   \<and> re_search TONE_CSS_RULE ''.tone3 { color: green'' = None
   \<and> contains ''.tone'' ''.tone3 { color: green''
   \<and> startswith ''.tone3 { color: green'' ''.tone''
   \<and> rules_54 ''.tone1 {a:b}\<newline>.tone3 { color: green\<newline>.tone2 {c:d}'' \<lparr>warnings = [], scripts = []\<rparr>
       = Inr ([''.tone1 {a:b}'', ''.tone2 {c:d}''], \<lparr>warnings = [WARN_ONE_LINER], scripts = []\<rparr>)
   \<and> rules_49 ''.tone1 {a:b}\<newline>.tone3 { color: green\<newline>.tone2 {c:d}'' \<lparr>warnings = [], scripts = []\<rparr>
       = Inr ([(''.tone1'', ''a:b''), (''.tone2'', ''c:d'')], \<lparr>warnings = [WARN_ONE_LINER], scripts = []\<rparr>)"
proof -
  have s: "split_on CHR 0x0A ''.tone1 {a:b}\<newline>.tone3 { color: green\<newline>.tone2 {c:d}''
     = [''.tone1 {a:b}''] @ [''.tone3 { color: green''] @ [''.tone2 {c:d}'']"
    by simp
  have c: "contains ''.tone'' ''.tone3 { color: green''"
    and t: "startswith ''.tone3 { color: green'' ''.tone''"
    by (simp_all add: startswith_def)
  have m1: "re_search TONE_CSS_RULE ''.tone1 {a:b}'' \<noteq> None"
    and m2: "re_search TONE_CSS_RULE ''.tone2 {c:d}'' \<noteq> None"
    by (simp_all add: re_search_def TONE_CSS_RULE_def is_digit_def)
  have g1: "match_groups ''.tone1 {a:b}'' = [(''.tone1'', ''a:b'')]"
    and g2: "match_groups ''.tone2 {c:d}'' = [(''.tone2'', ''c:d'')]"
    by (simp_all add: match_groups_def re_search_def TONE_CSS_RULE_def is_digit_def group_def
        slice_def)
  have b54: "for_each line_54 [''.tone1 {a:b}''] ([], \<lparr>warnings = [], scripts = []\<rparr>)
      = Inr ([''.tone1 {a:b}''], \<lparr>warnings = [], scripts = []\<rparr>)"
    using m1 by (simp add: line_54_eq startswith_def)
  have a54: "for_each line_54 [''.tone2 {c:d}''] ([''.tone1 {a:b}''], \<lparr>warnings = [WARN_ONE_LINER], scripts = []\<rparr>)
      = Inr ([''.tone1 {a:b}'', ''.tone2 {c:d}''], \<lparr>warnings = [WARN_ONE_LINER], scripts = []\<rparr>)"
    using m2 by (simp add: line_54_eq startswith_def)
  have b49: "for_each line_49 [''.tone1 {a:b}''] ([], \<lparr>warnings = [], scripts = []\<rparr>)
      = Inr ([(''.tone1'', ''a:b'')], \<lparr>warnings = [], scripts = []\<rparr>)"
    using m1 g1 by (simp add: line_49_eq startswith_def)
  have a49: "for_each line_49 [''.tone2 {c:d}''] ([(''.tone1'', ''a:b'')], \<lparr>warnings = [WARN_ONE_LINER], scripts = []\<rparr>)
      = Inr ([(''.tone1'', ''a:b''), (''.tone2'', ''c:d'')], \<lparr>warnings = [WARN_ONE_LINER], scripts = []\<rparr>)"
    using m2 g2 by (simp add: line_49_eq startswith_def)
  show ?thesis
    using s c t search_tone3_green b54 a54 b49 a49
      malformed_candidate_line [OF s search_tone3_green, of "\<lparr>warnings = [], scripts = []\<rparr>"]
    by auto
qed

subsection \<open>Which lines are candidates\<close>

lemma showWarning_neq: "showWarning msg w \<noteq> w"
proof
  assume "showWarning msg w = w"
  then have "warnings (showWarning msg w) = warnings w" by simp
  then show False by (simp add: showWarning_def)
qed

lemma no_tone_no_candidate:
  assumes "\<not> contains ''.tone'' css" and "l \<in> set (split_on sep css)"
  shows "\<not> contains ''.tone'' l" and "\<not> startswith l ''.tone''"
proof -
  from in_split_on [OF assms(2)] obtain pre post where css: "css = pre @ l @ post" by blast
  show c: "\<not> contains ''.tone'' l"
  proof
    assume "contains ''.tone'' l"
    then obtain a b where "l = a @ ''.tone'' @ b" unfolding contains_iff by blast
    then have "css = (pre @ a) @ ''.tone'' @ (b @ post)" using css by simp
    then have "contains ''.tone'' css" unfolding contains_iff by blast
    then show False using assms(1) by simp
  qed
  show "\<not> startswith l ''.tone''"
  proof
    assume "startswith l ''.tone''"
    then obtain b where "l = [] @ ''.tone'' @ b" unfolding startswith_iff by auto
    then have "contains ''.tone'' l" unfolding contains_iff by blast
    then show False using c by simp
  qed
qed

text \<open>
  C6. The 2.1.54 extraction acts on a line (adds a rule or a warning) exactly when the
  line contains \<^verbatim>\<open>.tone\<close> somewhere; the 2.1.49 extraction exactly when the line starts with
  \<^verbatim>\<open>.tone\<close>. A line whose first character is white space gives neither a rule nor a
  warning under 2.1.49. A stylesheet in which \<^verbatim>\<open>.tone\<close> does not occur gives no rule and no
  warning under both.
\<close>

theorem candidate_lines:
  "((\<exists>pre post. line = pre @ ''.tone'' @ post) \<longleftrightarrow> line_54 line (rules, w) \<noteq> Inr (rules, w))
   \<and> ((\<exists>post. line = ''.tone'' @ post) \<longleftrightarrow> line_49 line (rules', w) \<noteq> Inr (rules', w))
   \<and> (is_space c \<longrightarrow> line_49 (c # rest) (rules', w) = Inr (rules', w))
   \<and> (\<not> (\<exists>pre post. css = pre @ ''.tone'' @ post) \<longrightarrow>
        rules_54 css w = Inr ([], w) \<and> rules_49 css w = Inr ([], w))"
proof (intro conjI)
  show "(\<exists>pre post. line = pre @ ''.tone'' @ post) \<longleftrightarrow> line_54 line (rules, w) \<noteq> Inr (rules, w)"
    unfolding contains_iff [symmetric] line_54_eq
    by (simp add: showWarning_neq)
  show "(\<exists>post. line = ''.tone'' @ post) \<longleftrightarrow> line_49 line (rules', w) \<noteq> Inr (rules', w)"
  proof (cases "re_search TONE_CSS_RULE line")
    case None
    then show ?thesis
      unfolding startswith_iff [symmetric] line_49_eq by (simp add: showWarning_neq)
  next
    case (Some m)
    from match_groups_Some [OF Some] obtain r where "match_groups line = [r]" by blast
    then show ?thesis
      unfolding startswith_iff [symmetric] line_49_eq using Some by simp
  qed
  show "is_space c \<longrightarrow> line_49 (c # rest) (rules', w) = Inr (rules', w)"
  proof
    assume "is_space c"
    then have "c \<noteq> CHR ''.''" by (auto simp: is_space_def)
    then show "line_49 (c # rest) (rules', w) = Inr (rules', w)"
      unfolding line_49_eq by (simp add: startswith_def)
  qed
  show "\<not> (\<exists>pre post. css = pre @ ''.tone'' @ post) \<longrightarrow>
        rules_54 css w = Inr ([], w) \<and> rules_49 css w = Inr ([], w)"
  proof
    assume "\<not> (\<exists>pre post. css = pre @ ''.tone'' @ post)"
    then have n: "\<not> contains ''.tone'' css" unfolding contains_iff .
    have 1: "filter (\<lambda>l. contains ''.tone'' l \<and> P l) (split_on CHR 0x0A css) = []" for P
      using no_tone_no_candidate(1) [OF n] by (simp add: filter_empty_conv)
    have 2: "filter (\<lambda>l. startswith l ''.tone'') (split_on CHR 0x0A css) = []"
      using no_tone_no_candidate(2) [OF n] by (simp add: filter_empty_conv)
    have 3: "filter (\<lambda>l. startswith l ''.tone'' \<and> P l) (split_on CHR 0x0A css) = []" for P
      using no_tone_no_candidate(2) [OF n] by (simp add: filter_empty_conv)
    show "rules_54 css w = Inr ([], w) \<and> rules_49 css w = Inr ([], w)"
      unfolding rules_54_eq rules_49_eq 1 2 3 by (simp add: warned_0)
  qed
qed

theorem candidate_lines_witness:
  "is_space CHR '' ''
   \<and> line_49 '' .tone1 {a:b}'' ([], \<lparr>warnings = [], scripts = []\<rparr>)
       = Inr ([], \<lparr>warnings = [], scripts = []\<rparr>)
   \<and> line_54 '' .tone1 {a:b}'' ([], \<lparr>warnings = [], scripts = []\<rparr>)
       \<noteq> Inr ([], \<lparr>warnings = [], scripts = []\<rparr>)
   \<and> rules_54 ''body { color: red }'' \<lparr>warnings = [], scripts = []\<rparr>
       = Inr ([], \<lparr>warnings = [], scripts = []\<rparr>)
   \<and> rules_49 ''body { color: red }'' \<lparr>warnings = [], scripts = []\<rparr>
       = Inr ([], \<lparr>warnings = [], scripts = []\<rparr>)"
proof -
  have sp: "is_space CHR '' ''" by (simp add: is_space_def)
  have "'' .tone1 {a:b}'' = '' '' @ ''.tone'' @ ''1 {a:b}''" by simp
  then have ex: "\<exists>pre post. '' .tone1 {a:b}'' = pre @ ''.tone'' @ post" by blast
  have "\<not> contains ''.tone'' ''body { color: red }''" by (simp add: startswith_def)
  then have no: "\<not> (\<exists>pre post. ''body { color: red }'' = pre @ ''.tone'' @ post)"
    unfolding contains_iff .
  show ?thesis
    using sp ex no
      candidate_lines [of "'' .tone1 {a:b}''" "[]" "\<lparr>warnings = [], scripts = []\<rparr>" "[]"
        "CHR '' ''" "''.tone1 {a:b}''" "''body { color: red }''"]
    by simp
qed

subsection \<open>The loops over the rules and their declarations\<close>

lemma statement_assignment:
  "statement rulename property value = assignment (strip rulename) (strip property) (strip value)"
  by (simp add: statement_def assignment_def)

lemma part_49_eq:
  "part_49 rulename part inner_js =
     Inr (inner_js @
       (if CHR '':'' \<in> set part
        then statement rulename (takeWhile (\<lambda>c. c \<noteq> CHR '':'') part)
               (tl (dropWhile (\<lambda>c. c \<noteq> CHR '':'') part))
        else []))"
  by (simp add: part_49_def split_once_def)

lemma for_each_appending:
  assumes "\<And>x s. body x s = Inr (s @ h x)"
  shows "for_each body xs s = Inr (s @ concat (map h xs))"
  by (induction xs arbitrary: s) (simp_all add: assms)

lemma statements_of_parts:
  "concat (map (\<lambda>part. if CHR '':'' \<in> set part
        then statement rulename (takeWhile (\<lambda>c. c \<noteq> CHR '':'') part)
               (tl (dropWhile (\<lambda>c. c \<noteq> CHR '':'') part))
        else []) parts) =
   concat (map (\<lambda>(property, value). assignment (strip rulename) property value)
       (map (\<lambda>seg. (strip (takeWhile (\<lambda>c. c \<noteq> CHR '':'') seg),
                    strip (tl (dropWhile (\<lambda>c. c \<noteq> CHR '':'') seg))))
          (filter (\<lambda>seg. CHR '':'' \<in> set seg) parts)))"
  by (induction parts) (simp_all add: statement_assignment)

lemma rule_49_eq:
  "rule_49 (rulename, ruledef) inner_js =
     Inr (inner_js @ concat (map (\<lambda>(property, value). assignment (strip rulename) property value)
       (declaration_pairs ruledef)))"
proof -
  have "for_each (part_49 rulename) (split_on CHR '';'' ruledef) inner_js =
      Inr (inner_js @ concat (map (\<lambda>part. if CHR '':'' \<in> set part
        then statement rulename (takeWhile (\<lambda>c. c \<noteq> CHR '':'') part)
               (tl (dropWhile (\<lambda>c. c \<noteq> CHR '':'') part))
        else []) (split_on CHR '';'' ruledef)))"
    by (rule for_each_appending) (rule part_49_eq)
  then show ?thesis
    unfolding statements_of_parts by (simp add: rule_49_def declaration_pairs_def)
qed

lemma for_each_rule_49:
  "for_each rule_49 rules inner_js =
     Inr (inner_js @ concat (map (\<lambda>(rulename, ruledef).
       concat (map (\<lambda>(property, value). assignment (strip rulename) property value)
         (declaration_pairs ruledef))) rules))"
proof (rule for_each_appending)
  fix x :: "string \<times> string" and s
  obtain rulename ruledef where x: "x = (rulename, ruledef)" by (cases x)
  show "rule_49 x s = Inr (s @ (case x of (rulename, ruledef) \<Rightarrow>
       concat (map (\<lambda>(property, value). assignment (strip rulename) property value)
         (declaration_pairs ruledef))))"
    unfolding x rule_49_eq by simp
qed

lemma append_49_eq:
  "append_tone_styling_anki2_1_49 css w =
     (case rules_49 css w of
        Inl e \<Rightarrow> Inl e
      | Inr (rules, w') \<Rightarrow>
          Inr (web_eval (''jQuery('div.field').each(function () {\<newline>'' @
            concat (map (\<lambda>(rulename, ruledef).
              concat (map (\<lambda>(property, value). assignment (strip rulename) property value)
                (declaration_pairs ruledef))) rules) @ ''})'') w'))"
  by (simp add: append_tone_styling_anki2_1_49_def inner_js_49_def for_each_rule_49
      split: sum.splits prod.splits)

lemma rules_49_tone1_red:
  "rules_49 ''.tone1 { color: red; }'' w = Inr ([(''.tone1'', '' color: red; '')], w)"
  by (simp add: rules_49_eq search_tone1_red match_groups_def group_def slice_def warned_def
      startswith_def)

text \<open>
  C7. In the 2.1.49 function the statements generated for a rule are the assignments of
  the pairs of its declaration body, one per pair and in order, where the pairs are
  those of the specification: the segments between \<^verbatim>\<open>;\<close> that contain \<^verbatim>\<open>:\<close>, split at the first
  \<^verbatim>\<open>:\<close> and trimmed; the other segments give nothing. The script sent is the iteration
  over the fields around the statements of all rules. The line \<^verbatim>\<open>.tone2 {color:blue}\<close> gives
  the pair (color, blue) and the line \<^verbatim>\<open>.tone1 { color: red; }\<close> the pair (color, red).
\<close>

theorem legacy_declaration_pairs:
  "rule_49 (rulename, ruledef) inner_js =
     Inr (inner_js @ concat (map (\<lambda>(property, value). assignment (strip rulename) property value)
       (declaration_pairs ruledef)))
   \<and> (\<exists>rules w'. rules_49 css w = Inr (rules, w') \<and>
        append_tone_styling_anki2_1_49 css w =
          Inr (web_eval (''jQuery('div.field').each(function () {\<newline>'' @
            concat (map (\<lambda>(rulename, ruledef).
              concat (map (\<lambda>(property, value). assignment (strip rulename) property value)
                (declaration_pairs ruledef))) rules) @ ''})'') w'))
   \<and> rules_49 ''.tone2 {color:blue}'' w = Inr ([(''.tone2'', ''color:blue'')], w)
   \<and> declaration_pairs ''color:blue'' = [(''color'', ''blue'')]
   \<and> rules_49 ''.tone1 { color: red; }'' w = Inr ([(''.tone1'', '' color: red; '')], w)
   \<and> declaration_pairs '' color: red; '' = [(''color'', ''red'')]"
proof (intro conjI)
  show "rule_49 (rulename, ruledef) inner_js =
     Inr (inner_js @ concat (map (\<lambda>(property, value). assignment (strip rulename) property value)
       (declaration_pairs ruledef)))"
    by (rule rule_49_eq)
  show "\<exists>rules w'. rules_49 css w = Inr (rules, w') \<and>
        append_tone_styling_anki2_1_49 css w =
          Inr (web_eval (''jQuery('div.field').each(function () {\<newline>'' @
            concat (map (\<lambda>(rulename, ruledef).
              concat (map (\<lambda>(property, value). assignment (strip rulename) property value)
                (declaration_pairs ruledef))) rules) @ ''})'') w')"
    unfolding append_49_eq rules_49_eq by simp
  show "rules_49 ''.tone2 {color:blue}'' w = Inr ([(''.tone2'', ''color:blue'')], w)"
    by (simp add: rules_49_eq match_groups_def group_def slice_def warned_def startswith_def
        re_search_def TONE_CSS_RULE_def is_digit_def)
  show "declaration_pairs ''color:blue'' = [(''color'', ''blue'')]"
    by (simp add: declaration_pairs_def strip_def is_space_def)
  show "rules_49 ''.tone1 { color: red; }'' w = Inr ([(''.tone1'', '' color: red; '')], w)"
    by (rule rules_49_tone1_red)
  show "declaration_pairs '' color: red; '' = [(''color'', ''red'')]"
    by (simp add: declaration_pairs_def strip_def is_space_def)
qed

subsection \<open>Totality and repeatability\<close>

text \<open>
  C8. For every stylesheet both extractions return rules and raise nothing; the rules
  and the number of warnings depend on the stylesheet alone, not on the world in which
  the extraction runs, and the only effect is to append these warnings. Running an
  extraction a second time, in the world the first run left, returns the same rules.
  The decomposition of the 2.1.49 rules into statements raises nothing either.
\<close>

theorem extraction_total_and_repeatable:
  "(\<exists>rules n. \<forall>w. rules_54 css w =
        Inr (rules, w\<lparr>warnings := warnings w @ replicate n WARN_ONE_LINER\<rparr>))
   \<and> (\<exists>rules n. \<forall>w. rules_49 css w =
        Inr (rules, w\<lparr>warnings := warnings w @ replicate n WARN_ONE_LINER\<rparr>))
   \<and> (\<exists>rules w1 w2. rules_54 css w0 = Inr (rules, w1) \<and> rules_54 css w1 = Inr (rules, w2))
   \<and> (\<exists>rules w1 w2. rules_49 css w0 = Inr (rules, w1) \<and> rules_49 css w1 = Inr (rules, w2))
   \<and> (\<exists>rules w1 inner_js. rules_49 css w0 = Inr (rules, w1) \<and> inner_js_49 rules = Inr inner_js)"
proof (intro conjI)
  show "\<exists>rules n. \<forall>w. rules_54 css w =
        Inr (rules, w\<lparr>warnings := warnings w @ replicate n WARN_ONE_LINER\<rparr>)"
    unfolding rules_54_eq warned_def by blast
  show "\<exists>rules n. \<forall>w. rules_49 css w =
        Inr (rules, w\<lparr>warnings := warnings w @ replicate n WARN_ONE_LINER\<rparr>)"
    unfolding rules_49_eq warned_def by blast
  show "\<exists>rules w1 w2. rules_54 css w0 = Inr (rules, w1) \<and> rules_54 css w1 = Inr (rules, w2)"
    unfolding rules_54_eq by blast
  show "\<exists>rules w1 w2. rules_49 css w0 = Inr (rules, w1) \<and> rules_49 css w1 = Inr (rules, w2)"
    unfolding rules_49_eq by blast
  show "\<exists>rules w1 inner_js. rules_49 css w0 = Inr (rules, w1) \<and> inner_js_49 rules = Inr inner_js"
    unfolding rules_49_eq inner_js_49_def for_each_rule_49 by blast
qed

subsection \<open>The script sent\<close>

lemma append_54_eq:
  "append_tone_styling_anki2_1_54 css w =
     (case rules_54 css w of
        Inl e \<Rightarrow> Inl e
      | Inr (rules, w') \<Rightarrow>
          Inr (w'\<lparr>scripts := scripts w' @ [''var CSSRULES = '' @ json_dumps rules @ '';'' @ JS_54]\<rparr>))"
  by (simp add: append_tone_styling_anki2_1_54_def web_eval_def split: sum.splits prod.splits)

text \<open>
  C9. For every stylesheet one call of the 2.1.49 function or of the 2.1.54 function
  raises nothing and sends exactly one script to the web view, after the warnings of the
  extraction. When the extraction yields no rule, the 2.1.49 script is the iteration
  over the fields with an empty body, and the 2.1.54 script begins with an empty array
  of rules.
\<close>

theorem one_script_per_call:
  "(\<exists>js ws. append_tone_styling_anki2_1_49 css w =
        Inr (w\<lparr>warnings := warnings w @ ws, scripts := scripts w @ [js]\<rparr>) \<and>
      ((\<exists>w'. rules_49 css w = Inr ([], w')) \<longrightarrow>
         js = ''jQuery('div.field').each(function () {\<newline>})''))
   \<and> (\<exists>js ws. append_tone_styling_anki2_1_54 css w =
        Inr (w\<lparr>warnings := warnings w @ ws, scripts := scripts w @ [js]\<rparr>) \<and>
      ((\<exists>w'. rules_54 css w = Inr ([], w')) \<longrightarrow> js = ''var CSSRULES = [];'' @ JS_54))"
proof (intro conjI)
  obtain rules n where r: "rules_49 css w = Inr (rules, warned w n)"
    unfolding rules_49_eq by blast
  define js where "js = ''jQuery('div.field').each(function () {\<newline>'' @
     concat (map (\<lambda>(rulename, ruledef).
       concat (map (\<lambda>(property, value). assignment (strip rulename) property value)
         (declaration_pairs ruledef))) rules) @ ''})''"
  have a: "append_tone_styling_anki2_1_49 css w =
      Inr (w\<lparr>warnings := warnings w @ replicate n WARN_ONE_LINER, scripts := scripts w @ [js]\<rparr>)"
    unfolding append_49_eq r js_def by (simp add: web_eval_def warned_def)
  have b: "(\<exists>w'. rules_49 css w = Inr ([], w')) \<longrightarrow>
      js = ''jQuery('div.field').each(function () {\<newline>})''"
    unfolding r js_def by auto
  show "\<exists>js ws. append_tone_styling_anki2_1_49 css w =
        Inr (w\<lparr>warnings := warnings w @ ws, scripts := scripts w @ [js]\<rparr>) \<and>
      ((\<exists>w'. rules_49 css w = Inr ([], w')) \<longrightarrow>
         js = ''jQuery('div.field').each(function () {\<newline>})'')"
    using a b by blast
next
  obtain rules n where r: "rules_54 css w = Inr (rules, warned w n)"
    unfolding rules_54_eq by blast
  define js where "js = ''var CSSRULES = '' @ json_dumps rules @ '';'' @ JS_54"
  have a: "append_tone_styling_anki2_1_54 css w =
      Inr (w\<lparr>warnings := warnings w @ replicate n WARN_ONE_LINER, scripts := scripts w @ [js]\<rparr>)"
    unfolding append_54_eq r js_def by (simp add: warned_def)
  have b: "(\<exists>w'. rules_54 css w = Inr ([], w')) \<longrightarrow> js = ''var CSSRULES = [];'' @ JS_54"
    unfolding r js_def by (auto simp: json_dumps_def)
  show "\<exists>js ws. append_tone_styling_anki2_1_54 css w =
        Inr (w\<lparr>warnings := warnings w @ ws, scripts := scripts w @ [js]\<rparr>) \<and>
      ((\<exists>w'. rules_54 css w = Inr ([], w')) \<longrightarrow> js = ''var CSSRULES = [];'' @ JS_54)"
    using a b by blast
qed

theorem one_script_per_call_witness:
  "rules_49 ''body { }'' \<lparr>warnings = [], scripts = []\<rparr> = Inr ([], \<lparr>warnings = [], scripts = []\<rparr>)
   \<and> rules_54 ''body { }'' \<lparr>warnings = [], scripts = []\<rparr> = Inr ([], \<lparr>warnings = [], scripts = []\<rparr>)
   \<and> (\<exists>ws. append_tone_styling_anki2_1_49 ''body { }'' \<lparr>warnings = [], scripts = []\<rparr> =
        Inr \<lparr>warnings = ws, scripts = [''jQuery('div.field').each(function () {\<newline>})'']\<rparr>)
   \<and> (\<exists>ws. append_tone_styling_anki2_1_54 ''body { }'' \<lparr>warnings = [], scripts = []\<rparr> =
        Inr \<lparr>warnings = ws, scripts = [''var CSSRULES = [];'' @ JS_54]\<rparr>)"
proof -
  have 1: "rules_49 ''body { }'' \<lparr>warnings = [], scripts = []\<rparr> = Inr ([], \<lparr>warnings = [], scripts = []\<rparr>)"
    by (simp add: rules_49_eq warned_def startswith_def)
  have 2: "rules_54 ''body { }'' \<lparr>warnings = [], scripts = []\<rparr> = Inr ([], \<lparr>warnings = [], scripts = []\<rparr>)"
    by (simp add: rules_54_eq warned_def startswith_def)
  show ?thesis
    using 1 2 one_script_per_call [of "''body { }''" "\<lparr>warnings = [], scripts = []\<rparr>"]
    by auto
qed

subsection \<open>One statement per declaration\<close>

lemma append_49_tone1_red:
  "append_tone_styling_anki2_1_49 ''.tone1 { color: red; }'' w =
     Inr (w\<lparr>scripts := scripts w @
       [''jQuery('div.field').each(function () {\<newline>jQuery('.tone1', this.shadowRoot).css('color', 'red');\<newline>})'']\<rparr>)"
  by (simp add: append_tone_styling_anki2_1_49_def rules_49_tone1_red inner_js_49_def rule_49_def
      part_49_def split_once_def statement_def quoted_def strip_def is_space_def web_eval_def)

text \<open>
  C3, as stated, for the stylesheet \<^verbatim>\<open>.tone1 { color: red; }\<close>, whose only rule is \<^verbatim>\<open>.tone1\<close> with
  the declaration of \<^verbatim>\<open>color\<close> as \<^verbatim>\<open>red\<close>: the script sent has one assignment statement, not
  two; the function has no field roots among its inputs.
\<close>

theorem legacy_statement_per_field_counterexample:
  "append_tone_styling_anki2_1_49 ''.tone1 { color: red; }'' \<lparr>warnings = [], scripts = []\<rparr> =
     Inr \<lparr>warnings = [], scripts =
       [''jQuery('div.field').each(function () {\<newline>jQuery('.tone1', this.shadowRoot).css('color', 'red');\<newline>})'']\<rparr>
   \<and> occurrences ''jQuery('.tone1', this.shadowRoot).css('color', 'red');''
        ''jQuery('div.field').each(function () {\<newline>jQuery('.tone1', this.shadowRoot).css('color', 'red');\<newline>})''
       \<noteq> 2"
  by (simp add: append_49_tone1_red startswith_def)

text \<open>
  C3, amended. For that stylesheet the script sent is a single iteration over the
  elements \<^verbatim>\<open>div.field\<close> whose body is exactly one assignment statement, which sets \<^verbatim>\<open>color\<close> to
  \<^verbatim>\<open>red\<close> on the elements matching \<^verbatim>\<open>.tone1\<close> under the shadow root of the field at hand. The
  statement occurs once in the script, as does the iteration; the script does not
  depend on how many fields there are. The statements generated for the rule \<^verbatim>\<open>.tone1\<close> with
  the body \<^verbatim>\<open>color: red\<close> alone are that one statement.
\<close>

theorem legacy_one_statement_in_iteration:
  "append_tone_styling_anki2_1_49 ''.tone1 { color: red; }'' w =
     Inr (w\<lparr>scripts := scripts w @
       [''jQuery('div.field').each(function () {\<newline>'' @
        ''jQuery('.tone1', this.shadowRoot).css('color', 'red');\<newline>'' @ ''})'']\<rparr>)
   \<and> occurrences ''jQuery('.tone1', this.shadowRoot).css('color', 'red');''
        ''jQuery('div.field').each(function () {\<newline>jQuery('.tone1', this.shadowRoot).css('color', 'red');\<newline>})''
       = 1
   \<and> occurrences ''.css(''
        ''jQuery('div.field').each(function () {\<newline>jQuery('.tone1', this.shadowRoot).css('color', 'red');\<newline>})''
       = 1
   \<and> occurrences ''.each(''
        ''jQuery('div.field').each(function () {\<newline>jQuery('.tone1', this.shadowRoot).css('color', 'red');\<newline>})''
       = 1
   \<and> inner_js_49 [(''.tone1'', ''color: red'')]
       = Inr ''jQuery('.tone1', this.shadowRoot).css('color', 'red');\<newline>''"
  by (simp add: append_49_tone1_red startswith_def inner_js_49_def rule_49_def part_49_def
      split_once_def statement_def quoted_def strip_def is_space_def)

subsection \<open>The choice by version\<close>

text \<open>
  C1. A version text whose parts parse to the three numbers \<open>a\<close>, \<open>b\<close>, \<open>c\<close> binds
  \<^verbatim>\<open>append_tone_styling\<close> to the 2.1.49 function when \<open>(a, b, c)\<close> is below \<open>(2, 1, 50)\<close>, to
  the 2.1.54 function when it is at or above \<open>(2, 1, 54)\<close>, and in between to the function
  that does nothing, after exactly one warning; no warning is shown in the first two
  cases. A call through the first binding is a call of \<^verbatim>\<open>append_tone_styling_anki2_1_49\<close>,
  a call through the second one of \<^verbatim>\<open>append_tone_styling_anki2_1_54\<close>, and a call through
  the third leaves the world as it is. The texts 2.1.49, 2.1.54, 2.1.60 and 2.1.51 fall
  into the first, second, second and third case.
\<close>

theorem version_dispatch:
  assumes "int_each (split_on CHR ''.'' version) = Inr [a, b, c]"
  shows "(a < 2 \<or> (a = 2 \<and> (b < 1 \<or> (b = 1 \<and> c < 50)))
            \<longrightarrow> load_module version w = Inr (Anki2_1_49, w))
       \<and> (a > 2 \<or> (a = 2 \<and> (b > 1 \<or> (b = 1 \<and> c \<ge> 54)))
            \<longrightarrow> load_module version w = Inr (Anki2_1_54, w))
       \<and> (a = 2 \<and> b = 1 \<and> 50 \<le> c \<and> c < 54
            \<longrightarrow> load_module version w = Inr (Pass, w\<lparr>warnings := warnings w @ [UNSUPPORTED]\<rparr>)
              \<and> append_tone_styling Pass css w' = Inr w')
       \<and> append_tone_styling Anki2_1_49 css w' = append_tone_styling_anki2_1_49 css w'
       \<and> append_tone_styling Anki2_1_54 css w' = append_tone_styling_anki2_1_54 css w'
       \<and> append_tone_styling Pass css w' = Inr w'
       \<and> load_module ''2.1.49'' w = Inr (Anki2_1_49, w)
       \<and> load_module ''2.1.54'' w = Inr (Anki2_1_54, w)
       \<and> load_module ''2.1.60'' w = Inr (Anki2_1_54, w)
       \<and> load_module ''2.1.51'' w = Inr (Pass, w\<lparr>warnings := warnings w @ [UNSUPPORTED]\<rparr>)"
proof -
  have v: "load_module version w = Inr (bind_by_version [a, b, c] w)"
    using assms by (simp add: load_module_def)
  have ex: "load_module ''2.1.49'' w = Inr (Anki2_1_49, w)"
    "load_module ''2.1.54'' w = Inr (Anki2_1_54, w)"
    "load_module ''2.1.60'' w = Inr (Anki2_1_54, w)"
    "load_module ''2.1.51'' w = Inr (Pass, w\<lparr>warnings := warnings w @ [UNSUPPORTED]\<rparr>)"
    by (simp_all add: load_module_def bind_by_version_def showWarning_def py_int_def
        int_space_def is_digit_def digit_value_def)
  show ?thesis
    unfolding v using ex
    by (auto simp: bind_by_version_def showWarning_def append_tone_styling_def)
qed

theorem version_dispatch_witness:
  "int_each (split_on CHR ''.'' ''2.1.53'') = Inr [2, 1, 53]
   \<and> load_module ''2.1.53'' \<lparr>warnings = [], scripts = []\<rparr>
       = Inr (Pass, \<lparr>warnings = [UNSUPPORTED], scripts = []\<rparr>)
   \<and> append_tone_styling Pass ''.tone1 {color: red}'' \<lparr>warnings = [UNSUPPORTED], scripts = []\<rparr>
       = Inr \<lparr>warnings = [UNSUPPORTED], scripts = []\<rparr>"
proof -
  have h: "int_each (split_on CHR ''.'' ''2.1.53'') = Inr [2, 1, 53]"
    by (simp add: py_int_def int_space_def is_digit_def digit_value_def)
  show ?thesis
    using h version_dispatch [OF h, of "\<lparr>warnings = [], scripts = []\<rparr>"
        "''.tone1 {color: red}''" "\<lparr>warnings = [UNSUPPORTED], scripts = []\<rparr>"]
    by simp
qed

end
